theory Spec2Isabelle
  imports Complex_Main "HOL-Library.Monad_Syntax" "HOL-Library.Sublist" "HOL-Library.Multiset"
begin

section \<open>The Reddit collector of \<^verbatim>\<open>etl_scripts/reddit_etl.py\<close>\<close>

text \<open>
  The module collects the submissions and comments of one subreddit by several
  overlapping passes, merges them into one frame without duplicate ids, and
  normalises that frame. This theory embeds its functions and settles what the
  specification says about them.

  Conventions of the embedding.
  \<^item> A Python \<^verbatim>\<open>str\<close> is a \<^typ>\<open>string\<close>, one \<^typ>\<open>char\<close> per code point; the
    code points are those below 256 (Latin-1), so \<^const>\<open>length\<close> is Python's
    \<^verbatim>\<open>len\<close>.
  \<^item> \<^verbatim>\<open>created_utc\<close> is a whole number of epoch seconds (Reddit reports whole
    seconds as a float); a \<^verbatim>\<open>datetime\<close> is the number of seconds it stands for,
    the local zone taken to be UTC.
  \<^item> A float that is only carried along (\<^verbatim>\<open>upvote_ratio\<close>) is the rational it
    denotes.
  \<^item> Reading an attribute of a remote object may raise; such an attribute has an
    option type, \<^const>\<open>None\<close> for the read that raises. Where the code tests an
    attribute with \<^verbatim>\<open>hasattr\<close> and the kind of the exception matters, the read has
    three outcomes.
  \<^item> Logging and \<^verbatim>\<open>asyncio.sleep\<close> change no value of the program and are
    left out; so are the counters that only feed log lines.
\<close>

subsection \<open>Strings\<close>

text \<open>\<^verbatim>\<open>str.strip()\<close> removes leading and trailing whitespace; below 256 the
  whitespace code points are 9--13, 28--32, 133 and 160.\<close>

definition isspace :: "char \<Rightarrow> bool" where
  "isspace c = (let n = (of_char c :: nat) in
     (9 \<le> n \<and> n \<le> 13) \<or> (28 \<le> n \<and> n \<le> 32) \<or> n = 133 \<or> n = 160)"

definition strip :: "string \<Rightarrow> string" where
  "strip s = rev (dropWhile isspace (rev (dropWhile isspace s)))"

text \<open>\<^verbatim>\<open>str.lower()\<close>: below 256 the cased capitals are A--Z and 192--222 without
  215, each 32 below its small letter.\<close>

definition lower_char :: "char \<Rightarrow> char" where
  "lower_char c = (let n = (of_char c :: nat) in
     if (65 \<le> n \<and> n \<le> 90) \<or> (192 \<le> n \<and> n \<le> 222 \<and> n \<noteq> 215)
     then char_of (n + 32) else c)"

definition lower :: "string \<Rightarrow> string" where
  "lower s = map lower_char s"

text \<open>The character class \<^verbatim>\<open>[A-Z]\<close> of the seventh sanity test.\<close>

definition is_upper :: "char \<Rightarrow> bool" where
  "is_upper c = (let n = (of_char c :: nat) in 65 \<le> n \<and> n \<le> 90)"

text \<open>Decimal digits, for \<^verbatim>\<open>strftime\<close> and for f-strings that print an integer.\<close>

definition digit :: "int \<Rightarrow> char" where
  "digit n = char_of (48 + n mod 10)"

function str_digits :: "int \<Rightarrow> string" where
  "str_digits n = (if n < 10 then [digit n] else str_digits (n div 10) @ [digit n])"
  by pat_completeness auto
termination
  by (relation "measure nat") auto

declare str_digits.simps [simp del]

definition str_int :: "int \<Rightarrow> string" where
  "str_int i = (if i < 0 then CHR ''-'' # str_digits (- i) else str_digits i)"

definition pad2 :: "int \<Rightarrow> string" where
  "pad2 n = [digit (n div 10), digit n]"

subsection \<open>Timestamps\<close>

type_synonym datetime = int

text \<open>\<^verbatim>\<open>datetime.fromtimestamp\<close> raises outside the years 1 to 9999, and in the
  first day of year 1: looking for a repeated hour it converts the instant a day
  earlier too, which then falls before year 1.\<close>

definition fromtimestamp :: "int \<Rightarrow> datetime option" where
  "fromtimestamp ts =
     (if - 62135596800 + 86400 \<le> ts \<and> ts \<le> 253402300799 then Some ts else None)"

text \<open>The civil date of a day number (days since 1970-01-01), by the usual
  era arithmetic on the proleptic Gregorian calendar.\<close>

definition civil :: "int \<Rightarrow> int \<times> int \<times> int" where
  "civil days =
     (let z = days + 719468;
          era = z div 146097;
          doe = z - era * 146097;
          yoe = (doe - doe div 1460 + doe div 36524 - doe div 146096) div 365;
          doy = doe - (365 * yoe + yoe div 4 - yoe div 100);
          mp = (5 * doy + 2) div 153;
          d = doy - (153 * mp + 2) div 5 + 1;
          m = (if mp < 10 then mp + 3 else mp - 9);
          y = yoe + era * 400 + (if m \<le> 2 then 1 else 0)
      in (y, m, d))"

text \<open>\<^verbatim>\<open>strftime('%Y-%m-%d')\<close>: the C library prints the year without leading
  zeros.\<close>

definition strftime_date :: "datetime \<Rightarrow> string" where
  "strftime_date dt =
     (case civil (dt div 86400) of (y, m, d) \<Rightarrow>
        str_int y @ ''-'' @ pad2 m @ ''-'' @ pad2 d)"

definition strftime_time :: "datetime \<Rightarrow> string" where
  "strftime_time dt =
     (let s = dt mod 86400
      in pad2 (s div 3600) @ '':'' @ pad2 (s div 60 mod 60) @ '':'' @ pad2 (s mod 60))"

subsection \<open>Python values and dictionaries\<close>

text \<open>The values a record or a frame cell holds. \<open>VNone\<close> stands for
  \<^verbatim>\<open>None\<close> and for the \<^verbatim>\<open>NaN\<close> pandas puts where a key is missing: pandas
  counts both as null.\<close>

datatype pyval =
    VNone
  | VStr string
  | VInt int
  | VFloat rat
  | VBool bool
  | VDatetime datetime

text \<open>A \<^verbatim>\<open>dict\<close> with string keys, in insertion order.\<close>

type_synonym pydict = "(string \<times> pyval) list"

text \<open>\<^verbatim>\<open>d[k] = v\<close>: replaces the value of an existing key in place, appends a new
  key.\<close>

fun setitem :: "pydict \<Rightarrow> string \<Rightarrow> pyval \<Rightarrow> pydict" where
  "setitem [] k v = [(k, v)]"
| "setitem ((k', v') # d) k v = (if k' = k then (k, v) # d else (k', v') # setitem d k v)"

datatype exn =
    KeyError string
  | AssertionError string
  | Exception

subsection \<open>Remote objects\<close>

text \<open>\<^verbatim>\<open>obj.author\<close> raises, is \<^verbatim>\<open>None\<close>, or is a redditor whose \<^verbatim>\<open>name\<close> is
  read in turn.\<close>

datatype author_ref =
    AuthorRaises
  | AuthorNone
  | Redditor "string option"

text \<open>What reading an attribute that the code also tests with \<^verbatim>\<open>hasattr\<close> comes to:
  its value; no such attribute, an \<^verbatim>\<open>AttributeError\<close> that \<^verbatim>\<open>hasattr\<close> turns into
  \<^verbatim>\<open>False\<close>; or another exception, which \<^verbatim>\<open>hasattr\<close> lets through.\<close>

datatype 'a attr =
    Attr 'a
  | NoAttr
  | AttrRaises

fun hasattr :: "'a attr \<Rightarrow> bool option" where
  "hasattr (Attr v) = Some True"
| "hasattr NoAttr = Some False"
| "hasattr AttrRaises = None"

fun getattr :: "'a attr \<Rightarrow> 'a option" where
  "getattr (Attr v) = Some v"
| "getattr NoAttr = None"
| "getattr AttrRaises = None"

text \<open>A comment. Its \<^verbatim>\<open>id\<close> is read in the dictionary and, under \<^verbatim>\<open>hasattr\<close>, in
  the log line of the handler. \<open>c_body\<close>, \<open>c_replies\<close> and \<open>c_permalink\<close> are
  \<^const>\<open>None\<close> for an attribute the comment has not.\<close>

record comment =
  c_id :: "string attr"
  c_body :: "string option"
  c_created_utc :: "int option"
  c_author :: author_ref
  c_score :: "int option"
  c_replies :: "nat option"
  c_permalink :: "string option"

text \<open>The comment forest of a submission: \<open>f_expand\<close> is what
  \<^verbatim>\<open>replace_more(limit=None)\<close> followed by \<^verbatim>\<open>list()\<close> yields (\<^const>\<open>None\<close> when
  either raises), \<open>f_loaded\<close> the comments already held in \<^verbatim>\<open>_comments\<close>
  (\<^const>\<open>None\<close> when the forest has no such attribute).\<close>

record forest =
  f_expand :: "comment list option"
  f_loaded :: "comment list option"

datatype comments_attr =
    NoCommentsAttr
  | CommentsNone
  | CommentForest forest

text \<open>A submission of a listing. Every strategy reads \<^verbatim>\<open>submission.id\<close> before it
  hands the submission to the extractor or the comment harvester, and a listing
  builds each object from its id: for the strategies and the harvester the id is a
  plain field. \<open>s_link_flair_text\<close> may be read as \<^verbatim>\<open>None\<close>.\<close>

record submission =
  s_id :: string
  s_title :: "string option"
  s_is_self :: "bool option"
  s_selftext :: "string option"
  s_created_utc :: "int option"
  s_author :: author_ref
  s_score :: "int option"
  s_upvote_ratio :: "rat option"
  s_num_comments :: "int option"
  s_url :: "string option"
  s_permalink :: "string option"
  s_link_flair_text :: "string option option"
  s_comments :: comments_attr

text \<open>What \<^verbatim>\<open>extract_submission_data\<close> is handed. A strategy hands it a submission
  of a listing, whose id it has just read: \<open>Listed s\<close>. The function is not told
  so, and its handler reads \<^verbatim>\<open>submission.id\<close> again: \<open>Anonymous s\<close> is an object
  with the attributes of \<open>s\<close> on which reading \<^verbatim>\<open>id\<close> raises (its field \<open>s_id\<close> is
  not looked at).\<close>

datatype post_object =
    Listed submission
  | Anonymous submission

fun attributes :: "post_object \<Rightarrow> submission" where
  "attributes (Listed s) = s"
| "attributes (Anonymous s) = s"

text \<open>\<^verbatim>\<open>submission.id\<close>: the id, or \<^const>\<open>None\<close> when the read raises.\<close>

fun object_id :: "post_object \<Rightarrow> string option" where
  "object_id (Listed s) = Some (s_id s)"
| "object_id (Anonymous s) = None"

subsection \<open>The extractors\<close>

text \<open>\<^verbatim>\<open>author_name = '[deleted]'\<close>, then the guarded read
  \<^verbatim>\<open>obj.author.name if obj.author else '[deleted]'\<close> whose every exception is
  passed over.\<close>

fun author_name :: "author_ref \<Rightarrow> string" where
  "author_name AuthorRaises = ''[deleted]''"
| "author_name AuthorNone = ''[deleted]''"
| "author_name (Redditor None) = ''[deleted]''"
| "author_name (Redditor (Some n)) = n"

text \<open>The body of the \<^verbatim>\<open>try\<close> of \<^verbatim>\<open>extract_submission_data\<close>, in the option
  monad: \<^const>\<open>None\<close> when a statement raises, \<open>Some None\<close> for
  \<^verbatim>\<open>return None\<close>, \<open>Some (Some d)\<close> for the returned dictionary.\<close>

definition submission_try :: "post_object \<Rightarrow> pydict option option" where
  "submission_try submission = do {
     let s = attributes submission;
     ts \<leftarrow> s_created_utc s;
     created_dt \<leftarrow> fromtimestamp ts;
     is_self \<leftarrow> s_is_self s;
     selftext \<leftarrow> (if is_self then s_selftext s else Some []);
     title \<leftarrow> s_title s;
     let full_text = title @ '' '' @ selftext;
     if length (strip full_text) < 5 then Some None
     else do {
       let name = author_name (s_author s);
       i \<leftarrow> object_id submission;
       score \<leftarrow> s_score s;
       ratio \<leftarrow> s_upvote_ratio s;
       num_comments \<leftarrow> s_num_comments s;
       url \<leftarrow> s_url s;
       permalink \<leftarrow> s_permalink s;
       flair \<leftarrow> s_link_flair_text s;
       Some (Some
         [(''id'', VStr i),
          (''type'', VStr ''post''),
          (''complaint'', VStr full_text),
          (''username'', VStr name),
          (''timestamp'', VInt ts),
          (''timestamp_dt'', VDatetime created_dt),
          (''date'', VStr (strftime_date created_dt)),
          (''time'', VStr (strftime_time created_dt)),
          (''upvotes'', VInt score),
          (''upvote_ratio'', VFloat ratio),
          (''total_comments'', VInt num_comments),
          (''url'', VStr url),
          (''permalink'', VStr (''https://www.reddit.com'' @ permalink)),
          (''is_self_post'', VBool is_self),
          (''flair'', (case flair of None \<Rightarrow> VNone | Some f \<Rightarrow> VStr f)),
          (''title'', VStr title)])
     }
   }"

text \<open>\<^verbatim>\<open>except Exception\<close>: log, \<^verbatim>\<open>return None\<close>. The log line reads
  \<^verbatim>\<open>submission.id\<close> with no guard: when that read raises, the exception leaves the
  function. The result is a sum, \<open>Inl\<close> for an exception that leaves the
  function.\<close>

definition extract_submission_data :: "post_object \<Rightarrow> exn + pydict option" where
  "extract_submission_data submission =
     (case submission_try submission of
        Some r \<Rightarrow> Inr r
      | None \<Rightarrow>
          (case object_id submission of
             None \<Rightarrow> Inl Exception
           | Some i \<Rightarrow> Inr None))"

text \<open>The body of the \<^verbatim>\<open>try\<close> of \<^verbatim>\<open>extract_comment_data\<close>. The parent is the
  submission the harvester holds; it is read inside the \<^verbatim>\<open>try\<close> only.\<close>

definition comment_try :: "comment \<Rightarrow> submission \<Rightarrow> pydict option option" where
  "comment_try c parent_submission =
     (case c_body c of
        None \<Rightarrow> Some None
      | Some body \<Rightarrow>
          if length (strip body) < 5 \<or> body = ''[deleted]'' \<or> body = ''[removed]''
          then Some None
          else do {
            ts \<leftarrow> c_created_utc c;
            created_dt \<leftarrow> fromtimestamp ts;
            let name = author_name (c_author c);
            cid \<leftarrow> getattr (c_id c);
            score \<leftarrow> c_score c;
            parent_title \<leftarrow> s_title parent_submission;
            Some (Some
              [(''id'', VStr cid),
               (''type'', VStr ''comment''),
               (''complaint'', VStr body),
               (''username'', VStr name),
               (''timestamp'', VInt ts),
               (''timestamp_dt'', VDatetime created_dt),
               (''date'', VStr (strftime_date created_dt)),
               (''time'', VStr (strftime_time created_dt)),
               (''upvotes'', VInt score),
               (''upvote_ratio'', VNone),
               (''total_comments'', (case c_replies c of None \<Rightarrow> VInt 0 | Some n \<Rightarrow> VInt (int n))),
               (''url'', VNone),
               (''permalink'',
                  (case c_permalink c of None \<Rightarrow> VNone
                   | Some p \<Rightarrow> VStr (''https://www.reddit.com'' @ p))),
               (''is_self_post'', VNone),
               (''flair'', VNone),
               (''parent_submission_id'', VStr (s_id parent_submission)),
               (''parent_submission_title'', VStr parent_title)])
          })"

text \<open>The log line of the handler prints
  \<^verbatim>\<open>comment.id if hasattr(comment, 'id') else 'unknown'\<close>: a missing id is passed
  over, any other exception of the read leaves the function.\<close>

definition extract_comment_data :: "comment \<Rightarrow> submission \<Rightarrow> exn + pydict option" where
  "extract_comment_data c parent_submission =
     (case comment_try c parent_submission of
        Some r \<Rightarrow> Inr r
      | None \<Rightarrow>
          (case hasattr (c_id c) of
             None \<Rightarrow> Inl Exception
           | Some has_id \<Rightarrow> Inr None))"

subsection \<open>The reply harvester\<close>

text \<open>The loop of \<^verbatim>\<open>process_comments\<close> over \<^verbatim>\<open>all_comments\<close>. An exception that
  leaves \<^verbatim>\<open>extract_comment_data\<close> is caught by the enclosing \<^verbatim>\<open>try\<close>, which logs
  and falls through to \<^verbatim>\<open>return comment_data\<close>: the list built so far.\<close>

fun comment_loop :: "submission \<Rightarrow> comment list \<Rightarrow> pydict list \<Rightarrow> pydict list" where
  "comment_loop s [] comment_data = comment_data"
| "comment_loop s (c # cs) comment_data =
     (case extract_comment_data c s of
        Inl e \<Rightarrow> comment_data
      | Inr None \<Rightarrow> comment_loop s cs comment_data
      | Inr (Some extracted_data) \<Rightarrow>
          comment_loop s cs
            (comment_data @ [setitem extracted_data ''source'' (VStr (''comment_in_'' @ s_id s))]))"

text \<open>When the expansion raises, the inner handler takes the comments already
  loaded, or returns the empty list when there are none to take.\<close>

definition process_comments :: "submission \<Rightarrow> exn + pydict list" where
  "process_comments s =
     (case s_comments s of
        NoCommentsAttr \<Rightarrow> Inr []
      | CommentsNone \<Rightarrow> Inr []
      | CommentForest f \<Rightarrow>
          (case f_expand f of
             Some all_comments \<Rightarrow> Inr (comment_loop s all_comments [])
           | None \<Rightarrow>
               (case f_loaded f of
                  Some all_comments \<Rightarrow> Inr (comment_loop s all_comments [])
                | None \<Rightarrow> Inr [])))"

subsection \<open>The collection strategies\<close>

text \<open>What an \<^verbatim>\<open>async for\<close> over a listing meets at each step: the next
  submission, or an exception raised by the fetch of the next page. The items
  that follow a \<open>Failure\<close> are those the remote would still have served.\<close>

datatype fetched = Item submission | Failure

text \<open>The subreddit: \<open>sr_search q tf\<close> is
  \<^verbatim>\<open>subreddit.search(q, sort="new", time_filter=tf, limit=None)\<close>, and
  \<open>sr_listing m tf\<close> is \<^verbatim>\<open>getattr(subreddit, m)(limit=None, time_filter=tf)\<close>.\<close>

datatype sorting = New | Hot | Top | Controversial

record subreddit =
  sr_search :: "string \<Rightarrow> string option \<Rightarrow> fetched list"
  sr_listing :: "sorting \<Rightarrow> string option \<Rightarrow> fetched list"

text \<open>The list \<^verbatim>\<open>data\<close> of one strategy and the shared set
  \<^verbatim>\<open>processed_ids\<close>.\<close>

type_synonym collected = "pydict list \<times> pyval set"

text \<open>The four strategies run the same loop body; they differ in the test on the
  creation time (\<^verbatim>\<open>continue\<close>, \<^verbatim>\<open>break\<close> or go on) and in the tag written to
  \<^verbatim>\<open>source\<close>.\<close>

datatype verdict = Take | Skip | Stop

datatype ending = Exhausted | Broke | Raised

text \<open>\<^verbatim>\<open>for item in comment_data\<close>: append the comments whose id is new. The
  flag is \<^const>\<open>False\<close> when \<^verbatim>\<open>item['id']\<close> raises.\<close>

fun add_comments :: "pydict list \<Rightarrow> collected \<Rightarrow> bool \<times> collected" where
  "add_comments [] st = (True, st)"
| "add_comments (item # items) (data, processed_ids) =
     (case map_of item ''id'' of
        None \<Rightarrow> (False, (data, processed_ids))
      | Some i \<Rightarrow>
          if i \<notin> processed_ids
          then add_comments items (data @ [item], insert i processed_ids)
          else add_comments items (data, processed_ids))"

fun scan :: "(int \<Rightarrow> verdict) \<Rightarrow> string \<Rightarrow> fetched list \<Rightarrow> collected \<Rightarrow> ending \<times> collected" where
  "scan v tag [] st = (Exhausted, st)"
| "scan v tag (Failure # es) st = (Raised, st)"
| "scan v tag (Item s # es) (data, processed_ids) =
     (case s_created_utc s of
        None \<Rightarrow> (Raised, (data, processed_ids))
      | Some created \<Rightarrow>
          (case v created of
             Stop \<Rightarrow> (Broke, (data, processed_ids))
           | Skip \<Rightarrow> scan v tag es (data, processed_ids)
           | Take \<Rightarrow>
               if VStr (s_id s) \<in> processed_ids then scan v tag es (data, processed_ids)
               else
                 (case extract_submission_data (Listed s) of
                    Inl e \<Rightarrow> (Raised, (data, processed_ids))
                  | Inr None \<Rightarrow> scan v tag es (data, processed_ids)
                  | Inr (Some post_data) \<Rightarrow>
                      (let data' = data @ [setitem post_data ''source'' (VStr tag)];
                           ids' = insert (VStr (s_id s)) processed_ids
                       in case process_comments s of
                            Inl e \<Rightarrow> (Raised, (data', ids'))
                          | Inr comment_data \<Rightarrow>
                              (case add_comments comment_data (data', ids') of
                                 (False, st') \<Rightarrow> (Raised, st')
                               | (True, st') \<Rightarrow> scan v tag es st')))))"

subsubsection \<open>Time-windowed pagination\<close>

definition window_verdict :: "int \<Rightarrow> int \<Rightarrow> int \<Rightarrow> verdict" where
  "window_verdict start_timestamp month_end created =
     (if created < start_timestamp \<or> created > month_end then Skip else Take)"

text \<open>The \<^verbatim>\<open>while\<close> loop of \<^verbatim>\<open>collect_monthly_paginated\<close>. The two
  \<^verbatim>\<open>datetime.fromtimestamp\<close> calls that format the log line and the tag stand
  outside the \<^verbatim>\<open>try\<close>: when one raises, the strategy raises. The \<^verbatim>\<open>try\<close> around
  the search absorbs every exception of the window, so the ending of the scan is
  dropped.\<close>

function monthly_loop :: "subreddit \<Rightarrow> int \<Rightarrow> int \<Rightarrow> collected \<Rightarrow> exn + collected" where
  "monthly_loop sr start_timestamp end_timestamp st =
     (if start_timestamp < end_timestamp then
        (let month_end = min (start_timestamp + 30 * 24 * 60 * 60) end_timestamp in
         case fromtimestamp start_timestamp of
           None \<Rightarrow> Inl Exception
         | Some start_dt \<Rightarrow>
             (case fromtimestamp month_end of
                None \<Rightarrow> Inl Exception
              | Some end_dt \<Rightarrow>
                  monthly_loop sr month_end end_timestamp
                    (snd (scan (window_verdict start_timestamp month_end)
                            (''monthly_'' @ strftime_date start_dt)
                            (sr_search sr
                               (''timestamp:'' @ str_int start_timestamp @ ''..'' @ str_int month_end)
                               None)
                            st))))
      else Inr st)"
  by pat_completeness auto
termination
  by (relation "measure (\<lambda>(sr, a, b, st). nat (b - a))") auto

declare monthly_loop.simps [simp del]

text \<open>\<open>now\<close> is the clock read by \<^verbatim>\<open>int(datetime.now().timestamp())\<close>.\<close>

definition collect_monthly_paginated ::
    "subreddit \<Rightarrow> int \<Rightarrow> pyval set \<Rightarrow> int \<Rightarrow> exn + collected" where
  "collect_monthly_paginated sr start_timestamp processed_ids now =
     monthly_loop sr start_timestamp now ([], processed_ids)"

text \<open>The windows the loop walks through, as pairs
  \<open>(start_timestamp, month_end)\<close>.\<close>

function month_windows :: "int \<Rightarrow> int \<Rightarrow> (int \<times> int) list" where
  "month_windows start_timestamp end_timestamp =
     (if start_timestamp < end_timestamp then
        (let month_end = min (start_timestamp + 30 * 24 * 60 * 60) end_timestamp
         in (start_timestamp, month_end) # month_windows month_end end_timestamp)
      else [])"
  by pat_completeness auto
termination
  by (relation "measure (\<lambda>(a, b). nat (b - a))") auto

declare month_windows.simps [simp del]

text \<open>One pass of the loop body over a window.\<close>

definition window_pass :: "subreddit \<Rightarrow> collected \<Rightarrow> int \<times> int \<Rightarrow> collected" where
  "window_pass sr st w =
     snd (scan (window_verdict (fst w) (snd w))
            (''monthly_'' @ strftime_date (fst w))
            (sr_search sr (''timestamp:'' @ str_int (fst w) @ ''..'' @ str_int (snd w)) None)
            st)"

subsubsection \<open>Sort-order enumeration\<close>

fun method_name :: "sorting \<Rightarrow> string" where
  "method_name New = ''new''"
| "method_name Hot = ''hot''"
| "method_name Top = ''top''"
| "method_name Controversial = ''controversial''"

definition time_filters :: "sorting \<Rightarrow> string option list" where
  "time_filters m =
     (if m = Top \<or> m = Controversial
      then [Some ''all'', Some ''year'', Some ''month'', Some ''week'']
      else [None])"

definition sorting_verdict :: "sorting \<Rightarrow> int \<Rightarrow> int \<Rightarrow> verdict" where
  "sorting_verdict m since created =
     (if created < since then (if m = New then Stop else Skip) else Take)"

definition source_name :: "sorting \<Rightarrow> string option \<Rightarrow> string" where
  "source_name m time_filter =
     (case time_filter of None \<Rightarrow> method_name m | Some f \<Rightarrow> method_name m @ ''_'' @ f)"

text \<open>The loop over the time filters lies inside the one \<^verbatim>\<open>try\<close> of
  \<^verbatim>\<open>collect_sorting\<close>: an exception in a listing leaves the loop.\<close>

fun sorting_loop ::
    "subreddit \<Rightarrow> int \<Rightarrow> sorting \<Rightarrow> string option list \<Rightarrow> collected \<Rightarrow> ending \<times> collected" where
  "sorting_loop sr since m [] st = (Exhausted, st)"
| "sorting_loop sr since m (time_filter # rest) st =
     (case scan (sorting_verdict m since) (source_name m time_filter)
             (sr_listing sr m time_filter) st of
        (Raised, st') \<Rightarrow> (Raised, st')
      | (_, st') \<Rightarrow> sorting_loop sr since m rest st')"

definition collect_sorting :: "subreddit \<Rightarrow> int \<Rightarrow> pyval set \<Rightarrow> sorting \<Rightarrow> collected" where
  "collect_sorting sr since processed_ids m =
     snd (sorting_loop sr since m (time_filters m) ([], processed_ids))"

subsubsection \<open>Keyword search and flair search\<close>

definition since_verdict :: "int \<Rightarrow> int \<Rightarrow> verdict" where
  "since_verdict since created = (if created < since then Skip else Take)"

definition quoted :: "string \<Rightarrow> string" where
  "quoted s = CHR 0x22 # s @ [CHR 0x22]"

definition search_terms :: "string list" where
  "search_terms =
     [''problem'', ''issue'', ''terrible'', ''bad'', ''great'', ''awesome'',
      ''driver'', ''delivery'', ''order'', ''customer service'', ''refund'',
      ''cancel'', ''late'', ''missing'', ''wrong'', ''charge'', ''tip'',
      ''food'', ''cold'', ''wait'', ''app'', ''error'', ''crash'', ''glitch'',
      ''overcharge'', ''price'', ''expensive'', ''discount'', ''promo'',
      ''experience'', ''rating'', ''dasher'', ''courier'', ''vehicle'', ''bike'', ''car'',
      ''delayed'', ''damaged'', ''quality'', ''packaging'', ''restaurant'', ''merchant'',
      ''address'', ''location'', ''gps'', ''map'', ''directions'', ''instructions'',
      ''communication'', ''contact'', ''support'', ''chat'', ''phone'', ''call'', ''text'',
      ''payment'', ''card'', ''wallet'', ''subscription'', ''plus'', ''fees'', ''tax'',
      ''receipt'', ''estimate'', ''actual'', ''notification'', ''tracking'', ''map'',
      ''account'', ''login'', ''password'', ''verification'', ''bonus'', ''reward'',
      ''satisfaction'', ''disappointed'', ''happy'', ''frustrated'', ''angry'', ''love'',
      ''hate'', ''never again'', ''first time'', ''loyal'', ''regular'', ''customer'',
      ''lost'', ''stolen'', ''compensation'', ''resolution'', ''solution'', ''fixed'',
      ''fast'', ''slow'', ''quick'', ''temperature'', ''hot'', ''warm'', ''frozen'',
      ''delivered'', ''received'', ''picked up'', ''preparing'', ''ready'']
     @ map quoted
        [''customer service'', ''delivery time'', ''wrong order'',
         ''missing items'', ''cold food'', ''wrong address'',
         ''not delivered'', ''damaged food'', ''bad experience'',
         ''great service'', ''friendly driver'', ''app issues'']"

text \<open>The \<^verbatim>\<open>try\<close> lies inside the loop over the terms: it absorbs the exception
  of one search, and the loop goes on to the next term.\<close>

fun search_loop :: "subreddit \<Rightarrow> int \<Rightarrow> string list \<Rightarrow> collected \<Rightarrow> collected" where
  "search_loop sr since [] st = st"
| "search_loop sr since (q # qs) st =
     search_loop sr since qs
       (snd (scan (since_verdict since) (''search_'' @ q) (sr_search sr q (Some ''year'')) st))"

definition collect_search_posts :: "subreddit \<Rightarrow> int \<Rightarrow> pyval set \<Rightarrow> collected" where
  "collect_search_posts sr since processed_ids =
     search_loop sr since search_terms ([], processed_ids)"

definition flairs :: "string list" where
  "flairs =
     [''Complaint'', ''Issue'', ''Question'', ''Discussion'', ''Experience'',
      ''Feedback'', ''Problem'', ''Help'', ''Rant'', ''PSA'', ''Warning'', ''Tip'']"

fun flair_loop :: "subreddit \<Rightarrow> int \<Rightarrow> string list \<Rightarrow> collected \<Rightarrow> collected" where
  "flair_loop sr since [] st = st"
| "flair_loop sr since (flair # rest) st =
     flair_loop sr since rest
       (snd (scan (since_verdict since) (''flair_'' @ flair)
               (sr_search sr (''flair:'' @ flair) (Some ''year'')) st))"

definition collect_flair_posts :: "subreddit \<Rightarrow> int \<Rightarrow> pyval set \<Rightarrow> collected" where
  "collect_flair_posts sr since processed_ids =
     flair_loop sr since flairs ([], processed_ids)"

subsection \<open>Data frames\<close>

text \<open>A \<^verbatim>\<open>DataFrame\<close>: the column labels, and the rows in order, each row listing
  its cells by column. The row labels of pandas are written to no file
  (\<^verbatim>\<open>index=False\<close>) and are left out.\<close>

record frame =
  columns :: "string list"
  rows :: "pydict list"

definition cell :: "pydict \<Rightarrow> string \<Rightarrow> pyval" where
  "cell row c = (case map_of row c of None \<Rightarrow> VNone | Some v \<Rightarrow> v)"

definition first_seen :: "'a list \<Rightarrow> 'a list" where
  "first_seen xs = rev (remdups (rev xs))"

text \<open>\<^verbatim>\<open>pd.DataFrame(data)\<close> of a list of dictionaries: the columns are the keys in
  the order they are first met, and a row has a null where its dictionary has no
  such key.\<close>

definition DataFrame :: "pydict list \<Rightarrow> frame" where
  "DataFrame data =
     (let cols = first_seen (concat (map (map fst) data))
      in \<lparr>columns = cols, rows = map (\<lambda>d. map (\<lambda>c. (c, cell d c)) cols) data\<rparr>)"

text \<open>The first of the labels \<open>cs\<close> that is no column: the key of the
  \<^verbatim>\<open>KeyError\<close> that reading them in this order raises.\<close>

definition missing :: "string list \<Rightarrow> frame \<Rightarrow> string option" where
  "missing cs f = find (\<lambda>c. c \<notin> set (columns f)) cs"

text \<open>\<^verbatim>\<open>drop_duplicates(subset=[c])\<close> keeps the first row of each value. A frame
  without rows or without columns is returned as it is, before the labels are
  looked up.\<close>

fun keep_first :: "string \<Rightarrow> pyval list \<Rightarrow> pydict list \<Rightarrow> pydict list" where
  "keep_first c seen [] = []"
| "keep_first c seen (r # rs) =
     (if cell r c \<in> set seen then keep_first c seen rs
      else r # keep_first c (cell r c # seen) rs)"

definition drop_duplicates :: "string \<Rightarrow> frame \<Rightarrow> exn + frame" where
  "drop_duplicates c f =
     (if rows f = [] \<or> columns f = [] then Inr f
      else if c \<in> set (columns f) then Inr (f\<lparr>rows := keep_first c [] (rows f)\<rparr>)
      else Inl (KeyError c))"

text \<open>\<^verbatim>\<open>sort_values(by=c, ascending=False)\<close> on a column of datetimes: later
  times first, nulls last. \<open>before a b\<close> says that a row with key \<open>a\<close> may
  stand before one with key \<open>b\<close>. pandas fixes no order among equal keys; the
  model keeps them in their former order. A cell that is neither a datetime nor
  null does not occur in the column sorted here, and the model raises on it.\<close>

fun sortable :: "pyval \<Rightarrow> bool" where
  "sortable VNone = True"
| "sortable (VDatetime d) = True"
| "sortable v = False"

fun before :: "pyval \<Rightarrow> pyval \<Rightarrow> bool" where
  "before (VDatetime x) (VDatetime y) = (y \<le> x)"
| "before a (VDatetime y) = False"
| "before a b = True"

fun insert_row :: "string \<Rightarrow> pydict \<Rightarrow> pydict list \<Rightarrow> pydict list" where
  "insert_row c r [] = [r]"
| "insert_row c r (x # xs) =
     (if before (cell r c) (cell x c) then r # x # xs else x # insert_row c r xs)"

definition sort_rows :: "string \<Rightarrow> pydict list \<Rightarrow> pydict list" where
  "sort_rows c rs = foldr (insert_row c) rs []"

definition sort_values :: "string \<Rightarrow> frame \<Rightarrow> exn + frame" where
  "sort_values c f =
     (if c \<notin> set (columns f) then Inl (KeyError c)
      else if \<not> list_all (\<lambda>r. sortable (cell r c)) (rows f) then Inl Exception
      else Inr (f\<lparr>rows := sort_rows c (rows f)\<rparr>))"

text \<open>\<^verbatim>\<open>process_dataframe\<close>. Its log lines read six columns by name, and such a
  read raises \<^verbatim>\<open>KeyError\<close> on a frame without the column.\<close>

definition process_dataframe :: "pydict list \<Rightarrow> exn + frame" where
  "process_dataframe data =
     (case drop_duplicates ''id'' (DataFrame data) of
        Inl e \<Rightarrow> Inl e
      | Inr df \<Rightarrow>
          (case sort_values ''timestamp_dt'' df of
             Inl e \<Rightarrow> Inl e
           | Inr df' \<Rightarrow>
               (case missing [''type'', ''date'', ''username'', ''source'', ''upvotes'',
                              ''total_comments''] df' of
                  Some k \<Rightarrow> Inl (KeyError k)
                | None \<Rightarrow> Inr df')))"

subsection \<open>Normalisation\<close>

text \<open>\<^verbatim>\<open>dropna(subset=cs)\<close> returns a new frame without the rows that have a null
  in one of the columns \<open>cs\<close>.\<close>

definition dropna :: "string list \<Rightarrow> frame \<Rightarrow> exn + frame" where
  "dropna cs f =
     (case missing cs f of
        Some k \<Rightarrow> Inl (KeyError k)
      | None \<Rightarrow> Inr (f\<lparr>rows := filter (\<lambda>r. list_all (\<lambda>c. cell r c \<noteq> VNone) cs) (rows f)\<rparr>))"

text \<open>\<^verbatim>\<open>.str.lower()\<close> gives a null for a cell that is no string.\<close>

fun str_lower :: "pyval \<Rightarrow> pyval" where
  "str_lower (VStr s) = VStr (lower s)"
| "str_lower v = VNone"

text \<open>\<^verbatim>\<open>df[c] = values\<close>, the value of each row computed from the row.\<close>

definition assign :: "string \<Rightarrow> (pydict \<Rightarrow> pyval) \<Rightarrow> frame \<Rightarrow> frame" where
  "assign c g f =
     \<lparr>columns = (if c \<in> set (columns f) then columns f else columns f @ [c]),
      rows = map (\<lambda>r. setitem r c (g r)) (rows f)\<rparr>"

text \<open>\<^verbatim>\<open>rename(columns=m)\<close> passes over labels that are no column.\<close>

definition renamed :: "(string \<times> string) list \<Rightarrow> string \<Rightarrow> string" where
  "renamed m k = (case map_of m k of None \<Rightarrow> k | Some k' \<Rightarrow> k')"

definition rename :: "(string \<times> string) list \<Rightarrow> frame \<Rightarrow> frame" where
  "rename m f =
     \<lparr>columns = map (renamed m) (columns f),
      rows = map (map (\<lambda>(k, v). (renamed m k, v))) (rows f)\<rparr>"

text \<open>\<^verbatim>\<open>drop(columns=cs)\<close> raises when a label is no column.\<close>

definition drop_columns :: "string list \<Rightarrow> frame \<Rightarrow> exn + frame" where
  "drop_columns cs f =
     (case missing cs f of
        Some k \<Rightarrow> Inl (KeyError k)
      | None \<Rightarrow>
          Inr \<lparr>columns = filter (\<lambda>c. c \<notin> set cs) (columns f),
               rows = map (filter (\<lambda>(k, v). k \<notin> set cs)) (rows f)\<rparr>)"

text \<open>Frames are objects: \<^verbatim>\<open>transform_data\<close> is handed a reference, copies the
  frame, and changes the frame that \<^verbatim>\<open>dropna\<close> returned in place
  (\<^verbatim>\<open>inplace=True\<close> and column assignment). The heap holds the frames by
  address; a new object takes the next free address.\<close>

type_synonym ref = nat

type_synonym heap = "frame list"

definition alloc :: "frame \<Rightarrow> heap \<Rightarrow> ref \<times> heap" where
  "alloc f h = (length h, h @ [f])"

definition transform_data :: "ref \<Rightarrow> string \<Rightarrow> heap \<Rightarrow> (exn + ref) \<times> heap" where
  "transform_data df app_name h =
     (if length h \<le> df then (Inl Exception, h)
      else
        (let (t0, h0) = alloc (h ! df) h in
         case missing [''complaint'', ''timestamp_dt'', ''upvotes'', ''total_comments'']
                (h0 ! t0) of
           Some k \<Rightarrow> (Inl (KeyError k), h0)
         | None \<Rightarrow>
             (case dropna [''complaint'', ''timestamp_dt''] (h0 ! t0) of
                Inl e \<Rightarrow> (Inl e, h0)
              | Inr kept \<Rightarrow>
                  (let (t, h1) = alloc kept h0;
                       h2 = h1[t := assign ''complaint''
                                      (\<lambda>r. str_lower (cell r ''complaint'')) (h1 ! t)];
                       h3 = h2[t := rename [(''complaint'', ''review''),
                                            (''timestamp_dt'', ''review_datetime''),
                                            (''upvotes'', ''upvote_count'')] (h2 ! t)];
                       h4 = h3[t := assign ''data_source'' (\<lambda>r. VStr ''Reddit'') (h3 ! t)];
                       h5 = h4[t := assign ''app_name'' (\<lambda>r. VStr app_name) (h4 ! t)]
                   in case drop_columns
                             [''id'', ''date'', ''type'', ''time'', ''timestamp'', ''url'',
                              ''permalink'', ''is_self_post'', ''source'', ''upvote_ratio'',
                              ''flair'', ''username'', ''title''] (h5 ! t) of
                        Inl e \<Rightarrow> (Inl e, h5)
                      | Inr dropped \<Rightarrow> (Inr t, h5[t := dropped])))))"

subsection \<open>Sanity tests\<close>

fun is_datetime :: "pyval \<Rightarrow> bool" where
  "is_datetime (VDatetime d) = True"
| "is_datetime v = False"

fun short_review :: "pyval \<Rightarrow> bool" where
  "short_review (VStr s) = (length s < 5)"
| "short_review v = False"

fun uppercase_review :: "pyval \<Rightarrow> bool" where
  "uppercase_review (VStr s) = list_ex is_upper s"
| "uppercase_review v = False"

text \<open>The assertions of \<^verbatim>\<open>run_sanity_tests\<close> in their order; the result is the
  exception raised, if any.\<close>

definition run_sanity_tests :: "frame \<Rightarrow> exn option" where
  "run_sanity_tests df =
     (if ''review'' \<notin> set (columns df) then Some (KeyError ''review'')
      else if list_ex (\<lambda>r. cell r ''review'' = VNone) (rows df)
        then Some (AssertionError ''null review'')
      else if ''review_datetime'' \<notin> set (columns df) then Some (KeyError ''review_datetime'')
      else if list_ex (\<lambda>r. cell r ''review_datetime'' = VNone) (rows df)
        then Some (AssertionError ''null review_datetime'')
      else if \<not> 10 < length (rows df) then Some (AssertionError ''row count'')
      else if missing [''review'', ''review_datetime'', ''upvote_count'', ''total_comments'',
                       ''data_source'', ''app_name''] df \<noteq> None
        then Some (AssertionError ''missing columns'')
      else if \<not> list_all (\<lambda>r. is_datetime (cell r ''review_datetime'')) (rows df)
        then Some (AssertionError ''datetime type'')
      else if list_ex (\<lambda>r. short_review (cell r ''review'')) (rows df)
        then Some (AssertionError ''short reviews'')
      else if list_ex (\<lambda>r. uppercase_review (cell r ''review'')) (rows df)
        then Some (AssertionError ''uppercase reviews'')
      else None)"

subsection \<open>The orchestrator\<close>

text \<open>What a run leaves behind: the raw snapshot given to \<^verbatim>\<open>save_raw_data\<close>, the
  processed set given to \<^verbatim>\<open>load_data\<close>, and the exception that ended the run,
  if any.\<close>

record run =
  raw_data :: "frame option"
  processed_data :: "frame option"
  failure :: "exn option"

text \<open>\<^verbatim>\<open>main\<close>, over a subreddit and the two readings of the clock: \<open>now\<close> for
  the cutoff and \<open>now'\<close> inside the windowed strategy. The frame returned by
  \<^verbatim>\<open>process_dataframe\<close> is the first object of the heap. The log lines of
  \<^verbatim>\<open>main\<close> read \<^verbatim>\<open>x['type']\<close>, a key every collected record has.\<close>

definition main :: "string \<Rightarrow> subreddit \<Rightarrow> int \<Rightarrow> int \<Rightarrow> run" where
  "main app_name sr now now' =
     (let one_year_ago = now - 365 * 24 * 60 * 60 in
      case fromtimestamp one_year_ago of
        None \<Rightarrow> \<lparr>raw_data = None, processed_data = None, failure = Some Exception\<rparr>
      | Some start_dt \<Rightarrow>
          (case collect_monthly_paginated sr one_year_ago {} now' of
             Inl e \<Rightarrow> \<lparr>raw_data = None, processed_data = None, failure = Some e\<rparr>
           | Inr (monthly_data, ids1) \<Rightarrow>
               (let (new_data, ids2) = collect_sorting sr one_year_ago ids1 New;
                    (hot_data, ids3) = collect_sorting sr one_year_ago ids2 Hot;
                    (top_data, ids4) = collect_sorting sr one_year_ago ids3 Top;
                    (controversial_data, ids5) = collect_sorting sr one_year_ago ids4 Controversial;
                    (search_data, ids6) = collect_search_posts sr one_year_ago ids5;
                    (flair_data, ids7) = collect_flair_posts sr one_year_ago ids6;
                    all_data = monthly_data @ new_data @ hot_data @ top_data
                               @ controversial_data @ search_data @ flair_data
                in case process_dataframe all_data of
                     Inl e \<Rightarrow> \<lparr>raw_data = None, processed_data = None, failure = Some e\<rparr>
                   | Inr df \<Rightarrow>
                       (case transform_data 0 app_name [df] of
                          (Inl e, h) \<Rightarrow>
                            \<lparr>raw_data = Some df, processed_data = None, failure = Some e\<rparr>
                        | (Inr t, h) \<Rightarrow>
                            \<lparr>raw_data = Some df, processed_data = Some (h ! t),
                             failure = run_sanity_tests (h ! t)\<rparr>))))"

section \<open>Derived notions\<close>

text \<open>The notions below are not functions of the module: they name what the
  properties are about.\<close>

text \<open>The text of a record is acceptable: at least five characters once
  stripped, and neither of the two sentinels.\<close>

definition body_text_ok :: "pydict \<Rightarrow> bool" where
  "body_text_ok d =
     (case cell d ''complaint'' of
        VStr t \<Rightarrow> 5 \<le> length (strip t) \<and> t \<noteq> ''[deleted]'' \<and> t \<noteq> ''[removed]''
      | _ \<Rightarrow> False)"

fun is_str :: "pyval \<Rightarrow> bool" where
  "is_str (VStr s) = True"
| "is_str v = False"

text \<open>What both extractors establish of every record they return, and what tagging
  a record with its \<^verbatim>\<open>source\<close> keeps: a string id, an acceptable text, a datetime,
  and no key named like a column of the normalised schema.\<close>

definition record_ok :: "pydict \<Rightarrow> bool" where
  "record_ok d =
     (is_str (cell d ''id'') \<and> body_text_ok d \<and> is_datetime (cell d ''timestamp_dt'')
      \<and> ''review'' \<notin> fst ` set d \<and> ''review_datetime'' \<notin> fst ` set d)"

text \<open>The loop body of \<^const>\<open>scan\<close> on one submission: the state after it, and
  the ending when the loop stops there.\<close>

definition item_step ::
    "(int \<Rightarrow> verdict) \<Rightarrow> string \<Rightarrow> submission \<Rightarrow> collected \<Rightarrow> ending option \<times> collected" where
  "item_step v tag s st =
     (case s_created_utc s of
        None \<Rightarrow> (Some Raised, st)
      | Some created \<Rightarrow>
          (case v created of
             Stop \<Rightarrow> (Some Broke, st)
           | Skip \<Rightarrow> (None, st)
           | Take \<Rightarrow>
               if VStr (s_id s) \<in> snd st then (None, st)
               else
                 (case extract_submission_data (Listed s) of
                    Inl e \<Rightarrow> (Some Raised, st)
                  | Inr None \<Rightarrow> (None, st)
                  | Inr (Some post_data) \<Rightarrow>
                      (case process_comments s of
                         Inl e \<Rightarrow>
                           (Some Raised,
                            (fst st @ [setitem post_data ''source'' (VStr tag)],
                             insert (VStr (s_id s)) (snd st)))
                       | Inr comment_data \<Rightarrow>
                           (case add_comments comment_data
                                   (fst st @ [setitem post_data ''source'' (VStr tag)],
                                    insert (VStr (s_id s)) (snd st)) of
                              (False, st') \<Rightarrow> (Some Raised, st')
                            | (True, st') \<Rightarrow> (None, st'))))))"

text \<open>\<^const>\<open>transform_data\<close> seen from the frame it is given: the rows it keeps, what
  it makes of a row, and the frame it returns.\<close>

definition kept :: "pydict \<Rightarrow> bool" where
  "kept r = (cell r ''complaint'' \<noteq> VNone \<and> cell r ''timestamp_dt'' \<noteq> VNone)"

definition normalized_row :: "string \<Rightarrow> pydict \<Rightarrow> pydict" where
  "normalized_row app_name r =
     filter (\<lambda>(k, v). k \<notin> set [''id'', ''date'', ''type'', ''time'', ''timestamp'', ''url'',
                              ''permalink'', ''is_self_post'', ''source'', ''upvote_ratio'',
                              ''flair'', ''username'', ''title''])
       (setitem
          (setitem
             (map (\<lambda>(k, v). (renamed [(''complaint'', ''review''),
                                       (''timestamp_dt'', ''review_datetime''),
                                       (''upvotes'', ''upvote_count'')] k, v))
                (setitem r ''complaint'' (str_lower (cell r ''complaint''))))
             ''data_source'' (VStr ''Reddit''))
          ''app_name'' (VStr app_name))"

definition normalized_frame :: "string \<Rightarrow> frame \<Rightarrow> exn + frame" where
  "normalized_frame app_name f =
     (case missing [''complaint'', ''timestamp_dt'', ''upvotes'', ''total_comments''] f of
        Some k \<Rightarrow> Inl (KeyError k)
      | None \<Rightarrow>
          (case dropna [''complaint'', ''timestamp_dt''] f of
             Inl e \<Rightarrow> Inl e
           | Inr g \<Rightarrow>
               drop_columns
                 [''id'', ''date'', ''type'', ''time'', ''timestamp'', ''url'',
                  ''permalink'', ''is_self_post'', ''source'', ''upvote_ratio'',
                  ''flair'', ''username'', ''title'']
                 (assign ''app_name'' (\<lambda>r. VStr app_name)
                    (assign ''data_source'' (\<lambda>r. VStr ''Reddit'')
                       (rename [(''complaint'', ''review''),
                                (''timestamp_dt'', ''review_datetime''),
                                (''upvotes'', ''upvote_count'')]
                          (assign ''complaint'' (\<lambda>r. str_lower (cell r ''complaint'')) g))))))"

text \<open>\<^const>\<open>main\<close> from the merged list on.\<close>

definition finish :: "string \<Rightarrow> pydict list \<Rightarrow> run" where
  "finish app_name all_data =
     (case process_dataframe all_data of
        Inl e \<Rightarrow> \<lparr>raw_data = None, processed_data = None, failure = Some e\<rparr>
      | Inr df \<Rightarrow>
          (case normalized_frame app_name df of
             Inl e \<Rightarrow> \<lparr>raw_data = Some df, processed_data = None, failure = Some e\<rparr>
           | Inr out \<Rightarrow>
               \<lparr>raw_data = Some df, processed_data = Some out,
                failure = run_sanity_tests out\<rparr>))"

subsection \<open>Example objects\<close>

text \<open>A submission of forty days before the run with one reply already loaded and
  a comment forest whose expansion raises; a subreddit that lists it under
  \<^verbatim>\<open>new\<close>; and a subreddit whose first flair search fails on its first page.\<close>

definition ex_reply :: comment where
  "ex_reply = \<lparr>c_id = Attr ''c1'', c_body = Some ''Same HERE'', c_created_utc = Some 1700000500,
      c_author = AuthorNone, c_score = Some 1, c_replies = Some 0, c_permalink = None\<rparr>"

definition ex_post :: submission where
  "ex_post = \<lparr>s_id = ''p1'', s_title = Some ''Late order'', s_is_self = Some True,
      s_selftext = Some ''driver never showed'', s_created_utc = Some 1700000000,
      s_author = Redditor (Some ''alice''), s_score = Some 5, s_upvote_ratio = Some (9 / 10),
      s_num_comments = Some 2, s_url = Some ''https://redd.it/p1'',
      s_permalink = Some ''/r/doordash/p1'', s_link_flair_text = Some None,
      s_comments = CommentForest \<lparr>f_expand = None, f_loaded = Some [ex_reply]\<rparr>\<rparr>"

definition ex_feed :: subreddit where
  "ex_feed = \<lparr>sr_search = (\<lambda>q tf. []),
      sr_listing = (\<lambda>m tf. if m = New then [Item ex_post] else [])\<rparr>"

definition ex_failing :: subreddit where
  "ex_failing =
     \<lparr>sr_search = (\<lambda>q tf. if q = ''flair:Complaint'' then [Failure, Item ex_post] else []),
      sr_listing = (\<lambda>m tf. [])\<rparr>"

text \<open>What the \<^verbatim>\<open>new\<close> listing of that subreddit yields: the post and its reply.\<close>

definition ex_records :: "pydict list" where
  "ex_records =
     [[(''id'', VStr ''p1''), (''type'', VStr ''post''),
       (''complaint'', VStr ''Late order driver never showed''),
       (''username'', VStr ''alice''), (''timestamp'', VInt 1700000000),
       (''timestamp_dt'', VDatetime 1700000000),
       (''date'', VStr ''2023-11-14''), (''time'', VStr ''22:13:20''),
       (''upvotes'', VInt 5), (''upvote_ratio'', VFloat (9 / 10)),
       (''total_comments'', VInt 2), (''url'', VStr ''https://redd.it/p1''),
       (''permalink'', VStr ''https://www.reddit.com/r/doordash/p1''),
       (''is_self_post'', VBool True), (''flair'', VNone),
       (''title'', VStr ''Late order''), (''source'', VStr ''new'')],
      [(''id'', VStr ''c1''), (''type'', VStr ''comment''),
       (''complaint'', VStr ''Same HERE''), (''username'', VStr ''[deleted]''),
       (''timestamp'', VInt 1700000500),
       (''timestamp_dt'', VDatetime 1700000500),
       (''date'', VStr ''2023-11-14''), (''time'', VStr ''22:21:40''),
       (''upvotes'', VInt 1), (''upvote_ratio'', VNone),
       (''total_comments'', VInt 0), (''url'', VNone), (''permalink'', VNone),
       (''is_self_post'', VNone), (''flair'', VNone),
       (''parent_submission_id'', VStr ''p1''),
       (''parent_submission_title'', VStr ''Late order''),
       (''source'', VStr ''comment_in_p1'')]]"

text \<open>A submission from before the cutoff of that run, a recent one without
  comments, and a subreddit whose \<^verbatim>\<open>new\<close> listing serves the old submission between
  the two recent ones and whose \<^verbatim>\<open>hot\<close> listing serves it first.\<close>

definition ex_old :: submission where
  "ex_old = ex_post\<lparr>s_id := ''p0'', s_created_utc := Some 1000\<rparr>"

definition ex_next :: submission where
  "ex_next = ex_post\<lparr>s_id := ''p2'', s_comments := CommentsNone\<rparr>"

definition ex_sorted :: subreddit where
  "ex_sorted =
     \<lparr>sr_search = (\<lambda>q tf. []),
      sr_listing = (\<lambda>m tf. if m = New then [Item ex_post, Item ex_old, Item ex_next]
                           else if m = Hot then [Item ex_old, Item ex_next] else [])\<rparr>"

section \<open>Lemmas\<close>

lemma map_of_setitem: "map_of (setitem d k v) k' = (if k' = k then Some v else map_of d k')"
  by (induction d) auto

lemma keys_setitem: "fst ` set (setitem d k v) = insert k (fst ` set d)"
  by (induction d) force+

lemma cell_setitem: "cell (setitem d k v) k' = (if k' = k then v else cell d k')"
  by (simp add: cell_def map_of_setitem)

lemma combined_not_sentinel:
  "title @ CHR '' '' # selftext \<noteq> ''[deleted]''"
  "title @ CHR '' '' # selftext \<noteq> ''[removed]''"
proof -
  have sp: "CHR '' '' \<in> set (title @ CHR '' '' # selftext)" by simp
  show "title @ CHR '' '' # selftext \<noteq> ''[deleted]''"
  proof
    assume "title @ CHR '' '' # selftext = ''[deleted]''"
    with sp have "CHR '' '' \<in> set ''[deleted]''" by metis
    then show False by simp
  qed
  show "title @ CHR '' '' # selftext \<noteq> ''[removed]''"
  proof
    assume "title @ CHR '' '' # selftext = ''[removed]''"
    with sp have "CHR '' '' \<in> set ''[removed]''" by metis
    then show False by simp
  qed
qed

lemma submission_try_text:
  assumes "submission_try (Listed s) = Some (Some d)"
  shows "\<exists>title is_self selftext. s_title s = Some title \<and> s_is_self s = Some is_self \<and>
           (if is_self then s_selftext s = Some selftext else selftext = []) \<and>
           map_of d ''complaint'' = Some (VStr (title @ '' '' @ selftext)) \<and>
           5 \<le> length (strip (title @ '' '' @ selftext))"
  using assms
  by (auto simp: submission_try_def Let_def split: bind_splits if_splits)

lemma extract_submission_total: "\<exists>r. extract_submission_data (Listed s) = Inr r"
  by (simp add: extract_submission_data_def split: option.split)

lemma extract_comment_total: "c_id c \<noteq> AttrRaises \<Longrightarrow> \<exists>r. extract_comment_data c p = Inr r"
  by (cases "c_id c") (simp_all add: extract_comment_data_def split: option.split)

lemma comment_try_text:
  assumes "comment_try c p = Some (Some d)"
  shows "\<exists>body. c_body c = Some body \<and> map_of d ''complaint'' = Some (VStr body) \<and>
           5 \<le> length (strip body) \<and> body \<noteq> ''[deleted]'' \<and> body \<noteq> ''[removed]''"
  using assms
  by (auto simp: comment_try_def Let_def split: bind_splits if_splits option.splits)

lemma body_text_ok_setitem:
  "k \<noteq> ''complaint'' \<Longrightarrow> body_text_ok (setitem d k v) = body_text_ok d"
  by (simp add: body_text_ok_def cell_setitem)

lemma record_ok_source: "record_ok d \<Longrightarrow> record_ok (setitem d ''source'' v)"
  by (simp add: record_ok_def cell_setitem body_text_ok_setitem keys_setitem)

lemma submission_record_ok:
  assumes "extract_submission_data (Listed s) = Inr (Some d)"
  shows "record_ok d"
proof -
  from assms have t: "submission_try (Listed s) = Some (Some d)"
    by (simp add: extract_submission_data_def split: option.splits)
  from submission_try_text [OF t] have "body_text_ok d"
    by (auto simp: body_text_ok_def cell_def combined_not_sentinel)
  moreover from t have "is_str (cell d ''id'')" "is_datetime (cell d ''timestamp_dt'')"
    "''review'' \<notin> fst ` set d" "''review_datetime'' \<notin> fst ` set d"
    by (auto simp: submission_try_def cell_def Let_def split: bind_splits if_splits)
  ultimately show ?thesis by (simp add: record_ok_def)
qed

lemma comment_record_ok:
  assumes "extract_comment_data c p = Inr (Some d)"
  shows "record_ok d"
proof -
  from assms have t: "comment_try c p = Some (Some d)"
    by (simp add: extract_comment_data_def split: option.splits)
  from comment_try_text [OF t] have "body_text_ok d"
    by (auto simp: body_text_ok_def cell_def)
  moreover from t have "is_str (cell d ''id'')" "is_datetime (cell d ''timestamp_dt'')"
    "''review'' \<notin> fst ` set d" "''review_datetime'' \<notin> fst ` set d"
    by (auto simp: comment_try_def cell_def Let_def split: bind_splits if_splits option.splits)
  ultimately show ?thesis by (simp add: record_ok_def)
qed

lemma comment_loop_ok:
  "list_all record_ok acc \<Longrightarrow> list_all record_ok (comment_loop s cs acc)"
proof (induction cs arbitrary: acc)
  case Nil
  then show ?case by simp
next
  case (Cons c cs)
  show ?case
  proof (cases "extract_comment_data c s")
    case (Inl e)
    with Cons.prems show ?thesis by simp
  next
    case (Inr r)
    show ?thesis
    proof (cases r)
      case None
      with Inr Cons show ?thesis by simp
    next
      case (Some d)
      with Inr have "record_ok (setitem d ''source'' (VStr (''comment_in_'' @ s_id s)))"
        by (simp add: comment_record_ok record_ok_source)
      with Cons.prems have "list_all record_ok
          (acc @ [setitem d ''source'' (VStr (''comment_in_'' @ s_id s))])" by simp
      from Cons.IH [OF this] Inr Some show ?thesis by simp
    qed
  qed
qed

lemma process_comments_ok:
  "process_comments s = Inr cs \<Longrightarrow> list_all record_ok cs"
  by (auto simp: process_comments_def comment_loop_ok
      split: comments_attr.splits option.splits)

lemma process_comments_total: "\<exists>cs. process_comments s = Inr cs"
  by (simp add: process_comments_def split: comments_attr.split option.split)

lemma add_comments_ok:
  "list_all record_ok cs \<Longrightarrow> list_all record_ok (fst st) \<Longrightarrow>
   list_all record_ok (fst (snd (add_comments cs st)))"
  by (induction cs st rule: add_comments.induct) (auto split: option.splits)

lemma record_ok_has_id: "record_ok d \<Longrightarrow> \<exists>i. map_of d ''id'' = Some (VStr i)"
  by (cases "map_of d ''id''"; cases "cell d ''id''") (auto simp: record_ok_def cell_def)

lemma add_comments_flag:
  "list_all record_ok cs \<Longrightarrow> fst (add_comments cs st) = True"
proof (induction cs st rule: add_comments.induct)
  case (1 st)
  then show ?case by simp
next
  case (2 item items data processed_ids)
  from "2.prems" have "record_ok item" "list_all record_ok items" by simp_all
  with record_ok_has_id obtain i where "map_of item ''id'' = Some (VStr i)" by blast
  with 2 \<open>list_all record_ok items\<close> show ?case by simp
qed

lemma accept_ok:
  assumes "list_all record_ok data" "extract_submission_data (Listed s) = Inr (Some post)"
    "process_comments s = Inr cs"
    "add_comments cs (data @ [setitem post ''source'' (VStr tag)], ids) = (b, data', ids')"
  shows "list_all record_ok data'"
proof -
  have "list_all record_ok (data @ [setitem post ''source'' (VStr tag)])"
    using assms(1,2) by (simp add: submission_record_ok record_ok_source)
  with add_comments_ok [OF process_comments_ok [OF assms(3)],
      of "(data @ [setitem post ''source'' (VStr tag)], ids)"] assms(4)
  show ?thesis by simp
qed

lemma scan_ok:
  "list_all record_ok (fst st) \<Longrightarrow> list_all record_ok (fst (snd (scan v tag es st)))"
proof (induction es arbitrary: st)
  case Nil
  then show ?case by simp
next
  case (Cons e es)
  obtain data ids where st: "st = (data, ids)" by (cases st)
  show ?case
  proof (cases e)
    case Failure
    with Cons.prems show ?thesis by simp
  next
    case (Item s)
    from Cons.prems st have d: "list_all record_ok data" by simp
    show ?thesis
      unfolding st Item using d
      by (auto simp: Let_def submission_record_ok record_ok_source intro!: Cons.IH
          split: option.splits verdict.splits sum.splits bool.splits prod.splits
          intro: accept_ok)
  qed
qed

lemma sorting_loop_ok:
  "list_all record_ok (fst st) \<Longrightarrow>
   list_all record_ok (fst (snd (sorting_loop sr since m tfs st)))"
proof (induction tfs arbitrary: st)
  case Nil
  then show ?case by simp
next
  case (Cons tf tfs)
  let ?r = "scan (sorting_verdict m since) (source_name m tf) (sr_listing sr m tf) st"
  have ok: "list_all record_ok (fst (snd ?r))" using Cons.prems by (rule scan_ok)
  show ?case
  proof (cases "fst ?r = Raised")
    case True
    with ok show ?thesis by (cases ?r) simp
  next
    case False
    then have "sorting_loop sr since m (tf # tfs) st = sorting_loop sr since m tfs (snd ?r)"
      by (cases ?r; cases "fst ?r") auto
    with Cons.IH [OF ok] show ?thesis by simp
  qed
qed

lemma search_loop_ok:
  "list_all record_ok (fst st) \<Longrightarrow> list_all record_ok (fst (search_loop sr since qs st))"
  by (induction qs arbitrary: st) (simp_all add: scan_ok)

lemma flair_loop_ok:
  "list_all record_ok (fst st) \<Longrightarrow> list_all record_ok (fst (flair_loop sr since fs st))"
  by (induction fs arbitrary: st) (simp_all add: scan_ok)

lemma monthly_loop_ok:
  "monthly_loop sr a b st = Inr st' \<Longrightarrow> list_all record_ok (fst st) \<Longrightarrow>
   list_all record_ok (fst st')"
proof (induction sr a b st rule: monthly_loop.induct)
  case (1 sr a b st)
  show ?case
  proof (cases "a < b")
    case False
    with "1.prems" show ?thesis by (simp add: monthly_loop.simps)
  next
    case True
    let ?e = "min (a + 30 * 24 * 60 * 60) b"
    from True "1.prems"(1) obtain x y where x: "fromtimestamp a = Some x"
      and y: "fromtimestamp ?e = Some y"
      by (subst (asm) monthly_loop.simps) (auto simp: Let_def split: option.splits)
    let ?st = "snd (scan (window_verdict a ?e) (''monthly_'' @ strftime_date x)
                 (sr_search sr (''timestamp:'' @ str_int a @ ''..'' @ str_int ?e) None) st)"
    from True "1.prems"(1) x y have "monthly_loop sr ?e b ?st = Inr st'"
      by (subst (asm) monthly_loop.simps) (simp add: Let_def)
    moreover have "list_all record_ok (fst ?st)" using "1.prems"(2) by (rule scan_ok)
    ultimately show ?thesis using "1.IH" [OF True refl x y] by blast
  qed
qed

lemma month_windows_Nil: "\<not> a < b \<Longrightarrow> month_windows a b = []"
  by (simp add: month_windows.simps)

lemma month_windows_Cons:
  "a < b \<Longrightarrow> month_windows a b =
     (a, min (a + 2592000) b) # month_windows (min (a + 2592000) b) b"
  by (subst month_windows.simps) (simp add: Let_def)

lemma month_windows_hd: "a < b \<Longrightarrow> fst (hd (month_windows a b)) = a"
  by (simp add: month_windows_Cons)

lemma month_windows_bounds:
  "w \<in> set (month_windows a b) \<Longrightarrow>
     a \<le> fst w \<and> fst w < snd w \<and> snd w \<le> b \<and> snd w = min (fst w + 2592000) b"
proof (induction a b rule: month_windows.induct)
  case (1 a b)
  show ?case
  proof (cases "a < b")
    case False
    with "1.prems" show ?thesis by (simp add: month_windows_Nil)
  next
    case True
    from "1.prems" month_windows_Cons [OF True]
    consider "w = (a, min (a + 2592000) b)" | "w \<in> set (month_windows (min (a + 2592000) b) b)"
      by auto
    then show ?thesis
    proof cases
      case 1
      with True show ?thesis by auto
    next
      case 2
      from "1.IH" [OF True _ 2] True show ?thesis by auto
    qed
  qed
qed

lemma month_windows_chain:
  "Suc i < length (month_windows a b) \<Longrightarrow>
     snd (month_windows a b ! i) = fst (month_windows a b ! Suc i)"
proof (induction a b arbitrary: i rule: month_windows.induct)
  case (1 a b)
  show ?case
  proof (cases "a < b")
    case False
    with "1.prems" show ?thesis by (simp add: month_windows_Nil)
  next
    case True
    let ?e = "min (a + 2592000) b"
    note c = month_windows_Cons [OF True]
    show ?thesis
    proof (cases i)
      case 0
      with "1.prems" c have ne: "month_windows ?e b \<noteq> []" by auto
      then have "?e < b" using month_windows_Nil by blast
      then have "fst (hd (month_windows ?e b)) = ?e" by (rule month_windows_hd)
      with ne 0 c show ?thesis by (simp add: hd_conv_nth)
    next
      case (Suc j)
      with "1.prems" c have "Suc j < length (month_windows ?e b)" by simp
      from "1.IH" [OF True _ this] Suc c show ?thesis by simp
    qed
  qed
qed

lemma month_windows_last: "a < b \<Longrightarrow> snd (last (month_windows a b)) = b"
proof (induction a b rule: month_windows.induct)
  case (1 a b)
  let ?e = "min (a + 2592000) b"
  note c = month_windows_Cons [OF "1.prems"]
  show ?case
  proof (cases "?e < b")
    case True
    then have "month_windows ?e b \<noteq> []" by (simp add: month_windows_Cons)
    with c "1.IH" [OF "1.prems" _ True] show ?thesis by simp
  next
    case False
    then have "month_windows ?e b = []" by (rule month_windows_Nil)
    with c False show ?thesis by auto
  qed
qed

lemma month_windows_ordered:
  "sorted_wrt (\<lambda>w w'. snd w \<le> fst w') (month_windows a b)"
proof (induction a b rule: month_windows.induct)
  case (1 a b)
  show ?case
  proof (cases "a < b")
    case False
    then show ?thesis by (simp add: month_windows_Nil)
  next
    case True
    let ?e = "min (a + 2592000) b"
    have "\<forall>w \<in> set (month_windows ?e b). ?e \<le> fst w"
      using month_windows_bounds by blast
    with "1.IH" [OF True] month_windows_Cons [OF True] show ?thesis by simp
  qed
qed

lemma fromtimestamp_Some: "fromtimestamp a = Some x \<Longrightarrow> x = a"
  by (simp add: fromtimestamp_def split: if_splits)

lemma fromtimestamp_between:
  "fromtimestamp a \<noteq> None \<Longrightarrow> fromtimestamp b \<noteq> None \<Longrightarrow> a \<le> c \<Longrightarrow> c \<le> b \<Longrightarrow>
   fromtimestamp c = Some c"
  by (simp add: fromtimestamp_def split: if_splits)

lemma monthly_loop_windows:
  "fromtimestamp a \<noteq> None \<Longrightarrow> fromtimestamp b \<noteq> None \<Longrightarrow>
   monthly_loop sr a b st = Inr (foldl (window_pass sr) st (month_windows a b))"
proof (induction sr a b st rule: monthly_loop.induct)
  case (1 sr a b st)
  show ?case
  proof (cases "a < b")
    case False
    then show ?thesis by (simp add: monthly_loop.simps month_windows_Nil)
  next
    case True
    let ?e = "min (a + 30 * 24 * 60 * 60) b"
    have fa: "fromtimestamp a = Some a" using "1.prems" True
      by (intro fromtimestamp_between [of a b]) auto
    have fe: "fromtimestamp ?e = Some ?e" using "1.prems" True
      by (intro fromtimestamp_between [of a b]) auto
    have w: "window_pass sr st (a, ?e) =
        snd (scan (window_verdict a ?e) (''monthly_'' @ strftime_date a)
               (sr_search sr (''timestamp:'' @ str_int a @ ''..'' @ str_int ?e) None) st)"
      by (simp add: window_pass_def)
    have "monthly_loop sr a b st = monthly_loop sr ?e b (window_pass sr st (a, ?e))"
      unfolding w using True fa fe by (subst monthly_loop.simps) (simp add: Let_def)
    also have "\<dots> = Inr (foldl (window_pass sr) (window_pass sr st (a, ?e)) (month_windows ?e b))"
      unfolding w using "1.IH" [OF True refl fa fe] fe "1.prems"(2) by simp
    finally show ?thesis using month_windows_Cons [OF True] by simp
  qed
qed

lemma add_comments_prefix: "prefix (fst st) (fst (snd (add_comments cs st)))"
proof (induction cs st rule: add_comments.induct)
  case (1 st)
  then show ?case by simp
next
  case (2 item items data processed_ids)
  show ?case
  proof (cases "map_of item ''id''")
    case None
    then show ?thesis by simp
  next
    case (Some i)
    show ?thesis
    proof (cases "i \<in> processed_ids")
      case True
      with Some "2.IH"(2) [OF Some] show ?thesis by simp
    next
      case False
      from "2.IH"(1) [OF Some False]
      have "prefix (data @ [item]) (fst (snd (add_comments items (data @ [item], insert i processed_ids))))"
        by simp
      then have "prefix data (fst (snd (add_comments items (data @ [item], insert i processed_ids))))"
        by (rule append_prefixD)
      with Some False show ?thesis by simp
    qed
  qed
qed

lemma scan_Item:
  "scan v tag (Item s # es) st =
     (case item_step v tag s st of
        (None, st') \<Rightarrow> scan v tag es st'
      | (Some e, st') \<Rightarrow> (e, st'))"
proof -
  obtain data ids where st: "st = (data, ids)" by (cases st)
  show ?thesis
  proof (cases "s_created_utc s")
    case None
    then show ?thesis by (simp add: st item_step_def)
  next
    case (Some created)
    note cr = Some
    show ?thesis
    proof (cases "v created")
      case Stop
      with cr show ?thesis by (simp add: st item_step_def)
    next
      case Skip
      with cr show ?thesis by (simp add: st item_step_def)
    next
      case Take
      note tk = Take
      show ?thesis
      proof (cases "VStr (s_id s) \<in> ids")
        case True
        with cr tk show ?thesis by (simp add: st item_step_def)
      next
        case False
        note fresh = False
        show ?thesis
        proof (cases "extract_submission_data (Listed s)")
          case (Inl e)
          with cr tk fresh show ?thesis by (simp add: st item_step_def)
        next
          case (Inr r)
          note ex = Inr
          show ?thesis
          proof (cases r)
            case None
            with cr tk fresh ex show ?thesis by (simp add: st item_step_def)
          next
            case (Some post)
            note po = Some
            show ?thesis
            proof (cases "process_comments s")
              case (Inl e)
              with cr tk fresh ex po show ?thesis by (simp add: st item_step_def)
            next
              case (Inr cs)
              obtain b st' where "add_comments cs
                 (data @ [setitem post ''source'' (VStr tag)], insert (VStr (s_id s)) ids) = (b, st')"
                by (cases "add_comments cs
                 (data @ [setitem post ''source'' (VStr tag)], insert (VStr (s_id s)) ids)")
              with cr tk fresh ex po Inr show ?thesis
                by (cases b) (simp_all add: st item_step_def)
            qed
          qed
        qed
      qed
    qed
  qed
qed

declare scan.simps(3) [simp del]

lemma item_step_prefix: "prefix (fst st) (fst (snd (item_step v tag s st)))"
proof -
  have acc: "prefix (fst st) (fst (snd (add_comments cs (fst st @ [p], ids'))))" for p cs ids'
    using add_comments_prefix [of "(fst st @ [p], ids')" cs] by (auto dest: append_prefixD)
  have acc': "prefix (fst st) st1"
    if "add_comments cs (fst st @ [p], ids') = (b, st1, st2)" for p cs ids' b st1 st2
    using acc [of cs p ids'] that by simp
  show ?thesis
    by (auto simp: item_step_def acc'
        split: option.split verdict.split sum.split prod.split bool.split)
qed

lemma scan_prefix: "prefix (fst st) (fst (snd (scan v tag es st)))"
proof (induction es arbitrary: st)
  case Nil
  then show ?case by simp
next
  case (Cons e es)
  show ?case
  proof (cases e)
    case Failure
    then show ?thesis by simp
  next
    case (Item s)
    obtain r st1 where r: "item_step v tag s st = (r, st1)" by (cases "item_step v tag s st")
    have p: "prefix (fst st) (fst st1)" using item_step_prefix [of st v tag s] r by simp
    show ?thesis
    proof (cases r)
      case None
      with Cons.IH [of st1] p r Item show ?thesis
        by (auto simp: scan_Item intro: prefix_order.trans)
    next
      case (Some e')
      with p r Item show ?thesis by (simp add: scan_Item)
    qed
  qed
qed

lemma scan_failure:
  "scan v tag (pre @ Failure # rest) st = scan v tag (pre @ [Failure]) st"
proof (induction pre arbitrary: st)
  case Nil
  then show ?case by simp
next
  case (Cons e pre)
  show ?case
  proof (cases e)
    case Failure
    then show ?thesis by simp
  next
    case (Item s)
    show ?thesis unfolding Item
      by (simp add: scan_Item Cons.IH split: prod.split option.split)
  qed
qed

lemma item_step_stop:
  "s_created_utc s = Some created \<Longrightarrow> v created = Stop \<Longrightarrow>
   item_step v tag s st = (Some Broke, st)"
  by (simp add: item_step_def)

lemma item_step_skip:
  "s_created_utc s = Some created \<Longrightarrow> v created = Skip \<Longrightarrow>
   item_step v tag s st = (None, st)"
  by (simp add: item_step_def)

lemma item_step_seen:
  "s_created_utc s = Some created \<Longrightarrow> v created = Take \<Longrightarrow> VStr (s_id s) \<in> snd st \<Longrightarrow>
   item_step v tag s st = (None, st)"
  by (simp add: item_step_def)

lemma scan_stop:
  "s_created_utc s = Some created \<Longrightarrow> v created = Stop \<Longrightarrow>
   snd (scan v tag (pre @ Item s # rest) st) = snd (scan v tag pre st)"
proof (induction pre arbitrary: st)
  case Nil
  then show ?case by (simp add: scan_Item item_step_stop)
next
  case (Cons e pre)
  show ?case
  proof (cases e)
    case Failure
    then show ?thesis by simp
  next
    case (Item s')
    show ?thesis unfolding Item
      by (simp add: scan_Item Cons.IH [OF Cons.prems] split: prod.split option.split)
  qed
qed

lemma scan_skip:
  "s_created_utc s = Some created \<Longrightarrow> v created = Skip \<Longrightarrow>
   scan v tag (Item s # rest) st = scan v tag rest st"
  by (simp add: scan_Item item_step_skip)

lemma scan_seen:
  "s_created_utc s = Some created \<Longrightarrow> v created = Take \<Longrightarrow> VStr (s_id s) \<in> ids \<Longrightarrow>
   scan v tag (Item s # rest) (data, ids) = scan v tag rest (data, ids)"
  by (simp add: scan_Item item_step_seen)

lemma search_loop_append:
  "search_loop sr since (qs @ qs') st = search_loop sr since qs' (search_loop sr since qs st)"
  by (induction qs arbitrary: st) simp_all

lemma flair_loop_append:
  "flair_loop sr since (fs @ fs') st = flair_loop sr since fs' (flair_loop sr since fs st)"
  by (induction fs arbitrary: st) simp_all

lemma scan_accept:
  assumes "s_created_utc s = Some created" "v created = Take" "VStr (s_id s) \<notin> ids"
    "extract_submission_data (Listed s) = Inr (Some post)" "process_comments s = Inr cs"
  shows "scan v tag (Item s # rest) (data, ids) =
           scan v tag rest
             (snd (add_comments cs (data @ [setitem post ''source'' (VStr tag)],
                                    insert (VStr (s_id s)) ids)))"
proof -
  have "fst (add_comments cs (data @ [setitem post ''source'' (VStr tag)],
                                    insert (VStr (s_id s)) ids)) = True"
    using assms(5) by (intro add_comments_flag process_comments_ok)
  then show ?thesis using assms
    by (cases "add_comments cs (data @ [setitem post ''source'' (VStr tag)],
                                    insert (VStr (s_id s)) ids)")
       (simp add: scan_Item item_step_def)
qed

lemma keep_first_subseq: "subseq (keep_first c seen rs) rs"
  by (induction rs arbitrary: seen) auto

lemma keep_first_fresh:
  "r \<in> set (keep_first c seen rs) \<Longrightarrow> cell r c \<notin> set seen"
  by (induction rs arbitrary: seen) (fastforce split: if_splits)+

lemma keep_first_distinct: "distinct (map (\<lambda>r. cell r c) (keep_first c seen rs))"
  by (induction rs arbitrary: seen) (auto dest: keep_first_fresh)

lemma mset_insert_row: "mset (insert_row c r xs) = add_mset r (mset xs)"
  by (induction xs) auto

lemma mset_sort_rows: "mset (sort_rows c rs) = mset rs"
  by (induction rs) (auto simp: sort_rows_def mset_insert_row)

lemma set_sort_rows: "set (sort_rows c rs) = set rs"
  by (metis mset_sort_rows set_mset_mset)

lemma set_insert_row: "set (insert_row c r xs) = insert r (set xs)"
  by (metis mset_insert_row set_mset_mset set_mset_add_mset_insert)

lemma before_total: "sortable a \<Longrightarrow> sortable b \<Longrightarrow> before a b \<or> before b a"
  by (cases a; cases b) auto

lemma before_trans:
  "sortable a \<Longrightarrow> sortable b \<Longrightarrow> sortable c \<Longrightarrow> before a b \<Longrightarrow> before b c \<Longrightarrow> before a c"
  by (cases a; cases b; cases c) auto

lemma sorted_insert_row:
  assumes "sorted_wrt (\<lambda>r r'. before (cell r c) (cell r' c)) xs"
    and "sortable (cell r c)" and "list_all (\<lambda>r. sortable (cell r c)) xs"
  shows "sorted_wrt (\<lambda>r r'. before (cell r c) (cell r' c)) (insert_row c r xs)"
  using assms
proof (induction xs)
  case Nil
  then show ?case by simp
next
  case (Cons x xs)
  show ?case
  proof (cases "before (cell r c) (cell x c)")
    case True
    have "before (cell r c) (cell y c)" if "y \<in> set xs" for y
    proof -
      from that Cons.prems have "before (cell x c) (cell y c)" "sortable (cell y c)"
        by (auto simp: list_all_iff)
      with True Cons.prems show ?thesis by (auto intro: before_trans)
    qed
    with True Cons.prems show ?thesis by auto
  next
    case False
    with Cons.prems have "before (cell x c) (cell r c)" using before_total by auto
    with False Cons show ?thesis by (auto simp: set_insert_row)
  qed
qed

lemma sorted_sort_rows:
  "list_all (\<lambda>r. sortable (cell r c)) rs \<Longrightarrow>
   sorted_wrt (\<lambda>r r'. before (cell r c) (cell r' c)) (sort_rows c rs)"
proof (induction rs)
  case Nil
  then show ?case by (simp add: sort_rows_def)
next
  case (Cons r rs)
  then have "sorted_wrt (\<lambda>r r'. before (cell r c) (cell r' c)) (sort_rows c rs)" by simp
  moreover have "list_all (\<lambda>r. sortable (cell r c)) (sort_rows c rs)"
    using Cons.prems by (simp add: list_all_iff set_sort_rows)
  ultimately show ?case using Cons.prems
    by (simp add: sort_rows_def sorted_insert_row)
qed

lemma distinct_sort_rows:
  "distinct (map f (sort_rows c rs)) = distinct (map f rs)"
proof -
  have "mset (map f (sort_rows c rs)) = mset (map f rs)" by (simp add: mset_sort_rows)
  then show ?thesis by (metis distinct_count_atmost_1 set_mset_mset)
qed

lemma process_dataframe_Inr:
  assumes "process_dataframe data = Inr df"
  shows "columns df = columns (DataFrame data)"
    and "rows df = sort_rows ''timestamp_dt'' (keep_first ''id'' [] (rows (DataFrame data)))"
    and "list_all (\<lambda>r. sortable (cell r ''timestamp_dt'')) (keep_first ''id'' [] (rows (DataFrame data)))"
    and "''id'' \<in> set (columns df)"
proof -
  have e: "columns (DataFrame data) = []" if "rows (DataFrame data) = []"
    using that by (simp add: DataFrame_def Let_def first_seen_def)
  show "columns df = columns (DataFrame data)"
    and "rows df = sort_rows ''timestamp_dt'' (keep_first ''id'' [] (rows (DataFrame data)))"
    and "list_all (\<lambda>r. sortable (cell r ''timestamp_dt'')) (keep_first ''id'' [] (rows (DataFrame data)))"
    and "''id'' \<in> set (columns df)"
    using assms e
    by (auto simp: process_dataframe_def drop_duplicates_def sort_values_def
        split: sum.splits if_splits option.splits)
qed

lemma process_dataframe_distinct:
  "process_dataframe data = Inr df \<Longrightarrow> distinct (map (\<lambda>r. cell r ''id'') (rows df))"
  by (simp add: process_dataframe_Inr(2) distinct_sort_rows keep_first_distinct)

lemma process_dataframe_sorted:
  "process_dataframe data = Inr df \<Longrightarrow>
   sorted_wrt (\<lambda>r r'. before (cell r ''timestamp_dt'') (cell r' ''timestamp_dt'')) (rows df)"
  by (simp add: process_dataframe_Inr(2,3) sorted_sort_rows)

lemma process_dataframe_rows:
  "process_dataframe data = Inr df \<Longrightarrow> set (rows df) \<subseteq> set (rows (DataFrame data))"
  using keep_first_subseq [of "''id''" "[]" "rows (DataFrame data)"]
  by (auto simp: process_dataframe_Inr(2) set_sort_rows dest: subseq_order.dual_order.trans
      elim: list_emb_set)

lemma transform_data_normalize:
  assumes "df < length h"
  shows "transform_data df app_name h =
     (case normalized_frame app_name (h ! df) of
        Inl e \<Rightarrow> (Inl e, snd (transform_data df app_name h))
      | Inr out \<Rightarrow> (Inr (Suc (length h)), h @ [h ! df, out]))"
  using assms
  by (simp add: transform_data_def normalized_frame_def alloc_def Let_def nth_append
      list_update_append split: option.split sum.split)

lemma transform_data_grows: "prefix h (snd (transform_data df app_name h))"
  by (simp add: transform_data_def alloc_def Let_def nth_append list_update_append
      split: option.split sum.split)

lemma transform_data_range:
  "\<not> df < length h \<Longrightarrow> transform_data df app_name h = (Inl Exception, h)"
  by (simp add: transform_data_def)

lemma dropna_Inr:
  "dropna cs f = Inr g \<Longrightarrow>
   rows g = filter (\<lambda>r. list_all (\<lambda>c. cell r c \<noteq> VNone) cs) (rows f) \<and> columns g = columns f"
  by (auto simp: dropna_def split: option.splits)

lemma drop_columns_Inr:
  "drop_columns cs f = Inr g \<Longrightarrow>
   rows g = map (filter (\<lambda>(k, v). k \<notin> set cs)) (rows f) \<and>
   columns g = filter (\<lambda>c. c \<notin> set cs) (columns f)"
  by (auto simp: drop_columns_def split: option.splits)

lemma rows_assign: "rows (assign c g f) = map (\<lambda>r. setitem r c (g r)) (rows f)"
  by (simp add: assign_def)

lemma rows_rename: "rows (rename m f) = map (map (\<lambda>(k, v). (renamed m k, v))) (rows f)"
  by (simp add: rename_def)

lemma normalize_rows:
  assumes "normalized_frame app_name f = Inr out"
  shows "rows out = map (normalized_row app_name) (filter kept (rows f))"
proof -
  from assms obtain g where g: "dropna [''complaint'', ''timestamp_dt''] f = Inr g"
    and out: "drop_columns
                 [''id'', ''date'', ''type'', ''time'', ''timestamp'', ''url'',
                  ''permalink'', ''is_self_post'', ''source'', ''upvote_ratio'',
                  ''flair'', ''username'', ''title'']
                 (assign ''app_name'' (\<lambda>r. VStr app_name)
                    (assign ''data_source'' (\<lambda>r. VStr ''Reddit'')
                       (rename [(''complaint'', ''review''),
                                (''timestamp_dt'', ''review_datetime''),
                                (''upvotes'', ''upvote_count'')]
                          (assign ''complaint'' (\<lambda>r. str_lower (cell r ''complaint'')) g)))) = Inr out"
    unfolding normalized_frame_def by (auto split: option.splits sum.splits)
  have k: "rows g = filter kept (rows f)"
    using dropna_Inr [OF g] by (simp add: kept_def [abs_def])
  show ?thesis
    unfolding conjunct1 [OF drop_columns_Inr [OF out]] rows_assign rows_rename k
      normalized_row_def map_map comp_def ..
qed

lemma set_first_seen: "set (first_seen xs) = set xs"
  by (simp add: first_seen_def)

lemma map_of_tabulate:
  "map_of (map (\<lambda>c. (c, g c)) cols) c' = (if c' \<in> set cols then Some (g c') else None)"
  by (induction cols) auto

lemma cell_absent: "c \<notin> fst ` set d \<Longrightarrow> cell d c = VNone"
  by (simp add: cell_def map_of_eq_None_iff [THEN iffD2])

lemma cell_tabulate:
  "fst ` set d \<subseteq> set cols \<Longrightarrow> cell (map (\<lambda>c. (c, cell d c)) cols) c' = cell d c'"
  by (auto simp: cell_def [of "map _ _"] map_of_tabulate intro: cell_absent [symmetric])

lemma keys_tabulate: "fst ` set (map (\<lambda>c. (c, g c)) cols) = set cols"
  by (induction cols) auto

lemma DataFrame_columns: "set (columns (DataFrame data)) = (\<Union>d \<in> set data. fst ` set d)"
  by (auto simp: DataFrame_def Let_def set_first_seen)

lemma DataFrame_rows:
  "rows (DataFrame data) = map (\<lambda>d. map (\<lambda>c. (c, cell d c)) (columns (DataFrame data))) data"
  by (simp add: DataFrame_def Let_def)

lemma DataFrame_ok:
  assumes "list_all record_ok data"
  shows "list_all record_ok (rows (DataFrame data))"
proof -
  let ?cols = "columns (DataFrame data)"
  have "record_ok (map (\<lambda>c. (c, cell d c)) ?cols)" if d: "d \<in> set data" for d
  proof -
    from d have sub: "fst ` set d \<subseteq> set ?cols" by (auto simp: DataFrame_columns)
    have ok: "record_ok d" using assms d by (simp add: list_all_iff)
    have no: "''review'' \<notin> set ?cols" "''review_datetime'' \<notin> set ?cols"
      using assms by (auto simp: DataFrame_columns list_all_iff record_ok_def)
    show ?thesis using ok no
      by (simp add: record_ok_def body_text_ok_def cell_tabulate [OF sub] image_image)
  qed
  then show ?thesis by (simp add: DataFrame_rows list_all_iff)
qed

lemma process_dataframe_ok:
  "process_dataframe data = Inr df \<Longrightarrow> list_all record_ok data \<Longrightarrow>
   list_all record_ok (rows df)"
  using process_dataframe_rows [of data df] DataFrame_ok [of data]
  by (auto simp: list_all_iff)

lemma map_of_rekey:
  assumes "\<forall>k' \<in> fst ` set r. (f k' = k2) = (k' = k1)"
  shows "map_of (map (\<lambda>(k, v). (f k, v)) r) k2 = map_of r k1"
  using assms by (induction r) auto

lemma map_of_filter_keys:
  "k \<notin> S \<Longrightarrow> map_of (filter (\<lambda>(k', v). k' \<notin> S) r) k = map_of r k"
  by (induction r) auto

lemma renamed_review:
  "k \<noteq> ''review'' \<Longrightarrow>
   (renamed [(''complaint'', ''review''), (''timestamp_dt'', ''review_datetime''),
             (''upvotes'', ''upvote_count'')] k = ''review'') = (k = ''complaint'')"
  by (simp add: renamed_def)

lemma renamed_review_datetime:
  "k \<noteq> ''review_datetime'' \<Longrightarrow>
   (renamed [(''complaint'', ''review''), (''timestamp_dt'', ''review_datetime''),
             (''upvotes'', ''upvote_count'')] k = ''review_datetime'') = (k = ''timestamp_dt'')"
  by (simp add: renamed_def)

lemma normalized_review:
  assumes "''review'' \<notin> fst ` set r"
  shows "map_of (normalized_row app_name r) ''review'' = Some (str_lower (cell r ''complaint''))"
proof -
  let ?r1 = "setitem r ''complaint'' (str_lower (cell r ''complaint''))"
  have "''review'' \<notin> fst ` set ?r1"
    using assms by (simp add: keys_setitem)
  then have "\<forall>k' \<in> fst ` set ?r1. k' \<noteq> ''review''"
    by metis
  then have "map_of (map (\<lambda>(k, v). (renamed [(''complaint'', ''review''),
      (''timestamp_dt'', ''review_datetime''), (''upvotes'', ''upvote_count'')] k, v)) ?r1) ''review''
      = map_of ?r1 ''complaint''"
    by (intro map_of_rekey ballI renamed_review) blast
  moreover have "map_of (normalized_row app_name r) ''review'' =
      map_of (setitem (setitem (map (\<lambda>(k, v). (renamed [(''complaint'', ''review''),
      (''timestamp_dt'', ''review_datetime''), (''upvotes'', ''upvote_count'')] k, v)) ?r1)
        ''data_source'' (VStr ''Reddit'')) ''app_name'' (VStr app_name)) ''review''"
    unfolding normalized_row_def by (rule map_of_filter_keys) simp
  ultimately show ?thesis
    by (simp add: map_of_setitem)
qed

lemma normalized_review_datetime:
  assumes "''review_datetime'' \<notin> fst ` set r"
  shows "map_of (normalized_row app_name r) ''review_datetime'' = map_of r ''timestamp_dt''"
proof -
  let ?r1 = "setitem r ''complaint'' (str_lower (cell r ''complaint''))"
  have "''review_datetime'' \<notin> fst ` set ?r1"
    using assms by (simp add: keys_setitem)
  then have "\<forall>k' \<in> fst ` set ?r1. k' \<noteq> ''review_datetime''"
    by metis
  then have "map_of (map (\<lambda>(k, v). (renamed [(''complaint'', ''review''),
      (''timestamp_dt'', ''review_datetime''), (''upvotes'', ''upvote_count'')] k, v)) ?r1)
        ''review_datetime''
      = map_of ?r1 ''timestamp_dt''"
    by (intro map_of_rekey ballI renamed_review_datetime) blast
  moreover have "map_of (normalized_row app_name r) ''review_datetime'' =
      map_of (setitem (setitem (map (\<lambda>(k, v). (renamed [(''complaint'', ''review''),
      (''timestamp_dt'', ''review_datetime''), (''upvotes'', ''upvote_count'')] k, v)) ?r1)
        ''data_source'' (VStr ''Reddit'')) ''app_name'' (VStr app_name)) ''review_datetime''"
    unfolding normalized_row_def by (rule map_of_filter_keys) simp
  ultimately show ?thesis
    by (simp add: map_of_setitem)
qed

lemma lower_char_not_upper: "\<not> is_upper (lower_char c)"
  by (auto simp: is_upper_def lower_char_def Let_def)

lemma lower_not_upper: "\<not> list_ex is_upper (lower s)"
  by (simp add: lower_def list_ex_iff lower_char_not_upper)

lemma length_lower: "length (lower s) = length s"
  by (simp add: lower_def)

lemma lower_char_idem: "lower_char (lower_char c) = lower_char c"
proof -
  have "of_char c < (256::nat)" by simp
  then show ?thesis by (auto simp: lower_char_def Let_def)
qed

lemma lower_idem: "lower (lower s) = lower s"
  by (simp add: lower_def lower_char_idem)

lemma collect_sorting_ok: "collect_sorting sr since ids m = (data, ids') \<Longrightarrow> list_all record_ok data"
  using sorting_loop_ok [of "([], ids)" sr since m "time_filters m"]
  by (simp add: collect_sorting_def)

lemma collect_search_ok: "collect_search_posts sr since ids = (data, ids') \<Longrightarrow> list_all record_ok data"
  using search_loop_ok [of "([], ids)" sr since search_terms]
  by (simp add: collect_search_posts_def)

lemma collect_flair_ok: "collect_flair_posts sr since ids = (data, ids') \<Longrightarrow> list_all record_ok data"
  using flair_loop_ok [of "([], ids)" sr since flairs]
  by (simp add: collect_flair_posts_def)

lemma collect_monthly_ok:
  "collect_monthly_paginated sr since ids now = Inr (data, ids') \<Longrightarrow> list_all record_ok data"
  using monthly_loop_ok [of sr since now "([], ids)" "(data, ids')"]
  by (simp add: collect_monthly_paginated_def)

lemma transform_data_Inr:
  "df < length h \<Longrightarrow> normalized_frame app_name (h ! df) = Inr out \<Longrightarrow>
   transform_data df app_name h = (Inr (Suc (length h)), h @ [h ! df, out])"
  by (subst transform_data_normalize) simp_all

lemma transform_data_Inl:
  "df < length h \<Longrightarrow> normalized_frame app_name (h ! df) = Inl e \<Longrightarrow>
   fst (transform_data df app_name h) = Inl e"
  by (subst transform_data_normalize) simp_all

lemma finish_transform:
  "(case process_dataframe all_data of
      Inl e \<Rightarrow> \<lparr>raw_data = None, processed_data = None, failure = Some e\<rparr>
    | Inr df \<Rightarrow>
        (case transform_data 0 app_name [df] of
           (Inl e, h) \<Rightarrow> \<lparr>raw_data = Some df, processed_data = None, failure = Some e\<rparr>
         | (Inr t, h) \<Rightarrow>
             \<lparr>raw_data = Some df, processed_data = Some (h ! t),
              failure = run_sanity_tests (h ! t)\<rparr>)) = finish app_name all_data"
proof (cases "process_dataframe all_data")
  case (Inl e)
  then show ?thesis by (simp add: finish_def)
next
  case (Inr df)
  show ?thesis
  proof (cases "normalized_frame app_name df")
    case (Inl e)
    then have "fst (transform_data 0 app_name [df]) = Inl e"
      using transform_data_Inl [of 0 "[df]" app_name e] by simp
    with Inl Inr show ?thesis
      by (cases "transform_data 0 app_name [df]") (simp add: finish_def)
  next
    case (Inr out)
    then have "transform_data 0 app_name [df] = (Inr 2, [df, df, out])"
      using transform_data_Inr [of 0 "[df]" app_name out] by simp
    with Inr \<open>process_dataframe all_data = Inr df\<close> show ?thesis
      by (simp add: finish_def)
  qed
qed

lemma main_unfold:
  assumes "fromtimestamp (now - 31536000) = Some d"
    and "collect_monthly_paginated sr (now - 31536000) {} now' = Inr (monthly_data, ids1)"
    and "collect_sorting sr (now - 31536000) ids1 New = (new_data, ids2)"
    and "collect_sorting sr (now - 31536000) ids2 Hot = (hot_data, ids3)"
    and "collect_sorting sr (now - 31536000) ids3 Top = (top_data, ids4)"
    and "collect_sorting sr (now - 31536000) ids4 Controversial = (controversial_data, ids5)"
    and "collect_search_posts sr (now - 31536000) ids5 = (search_data, ids6)"
    and "collect_flair_posts sr (now - 31536000) ids6 = (flair_data, ids7)"
  shows "main app_name sr now now' =
     finish app_name (monthly_data @ new_data @ hot_data @ top_data
                      @ controversial_data @ search_data @ flair_data)"
  unfolding main_def Let_def finish_transform using assms by simp

lemma main_failed:
  "fromtimestamp (now - 31536000) = None \<or>
   (\<exists>e. collect_monthly_paginated sr (now - 31536000) {} now' = Inl e) \<Longrightarrow>
   raw_data (main app_name sr now now') = None \<and> processed_data (main app_name sr now now') = None"
  unfolding main_def Let_def finish_transform by (auto split: option.splits)

lemma main_cases:
  obtains (failed) "raw_data (main app_name sr now now') = None"
      "processed_data (main app_name sr now now') = None"
  | (collected) all_data where "list_all record_ok all_data"
      "main app_name sr now now' = finish app_name all_data"
proof (cases "fromtimestamp (now - 31536000)")
  case None
  then show ?thesis using failed main_failed [of now sr now' app_name] by simp
next
  case (Some d)
  show ?thesis
  proof (cases "collect_monthly_paginated sr (now - 31536000) {} now'")
    case (Inl e)
    then show ?thesis using failed main_failed [of now sr now' app_name] by simp
  next
    case (Inr r)
    obtain monthly_data ids1 where r: "r = (monthly_data, ids1)" by (cases r)
    obtain new_data ids2 where
      a: "collect_sorting sr (now - 31536000) ids1 New = (new_data, ids2)" by fastforce
    obtain hot_data ids3 where
      b: "collect_sorting sr (now - 31536000) ids2 Hot = (hot_data, ids3)" by fastforce
    obtain top_data ids4 where
      c: "collect_sorting sr (now - 31536000) ids3 Top = (top_data, ids4)" by fastforce
    obtain controversial_data ids5 where
      d: "collect_sorting sr (now - 31536000) ids4 Controversial = (controversial_data, ids5)"
      by fastforce
    obtain search_data ids6 where
      e: "collect_search_posts sr (now - 31536000) ids5 = (search_data, ids6)" by fastforce
    obtain flair_data ids7 where
      f: "collect_flair_posts sr (now - 31536000) ids6 = (flair_data, ids7)" by fastforce
    have "list_all record_ok (monthly_data @ new_data @ hot_data @ top_data
                      @ controversial_data @ search_data @ flair_data)"
      using collect_monthly_ok [OF Inr [unfolded r]] collect_sorting_ok [OF a]
        collect_sorting_ok [OF b] collect_sorting_ok [OF c] collect_sorting_ok [OF d]
        collect_search_ok [OF e] collect_flair_ok [OF f]
      by simp
    then show ?thesis
      using collected main_unfold [OF Some Inr [unfolded r] a b c d e f] by blast
  qed
qed

lemma finish_raw:
  "raw_data (finish app_name all_data) = Some df \<Longrightarrow> process_dataframe all_data = Inr df"
  by (auto simp: finish_def split: sum.splits)

lemma finish_processed:
  "processed_data (finish app_name all_data) = Some p \<Longrightarrow>
   \<exists>df. process_dataframe all_data = Inr df \<and> raw_data (finish app_name all_data) = Some df
        \<and> normalized_frame app_name df = Inr p"
  by (auto simp: finish_def split: sum.splits)

lemma ex_post_accepted: "extract_submission_data (Listed ex_post) \<noteq> Inr None"
  by code_simp

lemma ex_reply_accepted: "extract_comment_data ex_reply ex_post \<noteq> Inr None"
  by code_simp

lemma comment_loop_eq:
  "comment_loop s cs acc =
     acc @ List.map_filter
             (\<lambda>c. case extract_comment_data c s of
                    Inr (Some d) \<Rightarrow> Some (setitem d ''source'' (VStr (''comment_in_'' @ s_id s)))
                  | _ \<Rightarrow> None)
             (takeWhile (\<lambda>c. \<not> isl (extract_comment_data c s)) cs)"
proof (induction cs arbitrary: acc)
  case Nil
  then show ?case by (simp add: List.map_filter_simps)
next
  case (Cons c cs)
  show ?case
  proof (cases "extract_comment_data c s")
    case (Inl e)
    then show ?thesis by (simp add: List.map_filter_simps)
  next
    case (Inr r)
    show ?thesis
      by (cases r) (simp_all add: Inr Cons.IH List.map_filter_simps)
  qed
qed

lemma ex_post_created: "s_created_utc ex_post = Some 1700000000" "s_id ex_post = ''p1''"
  by (simp_all add: ex_post_def)

lemma ex_windows:
  "month_windows 1668564000 1700100000 =
    [(1668564000, 1671156000), (1671156000, 1673748000), (1673748000, 1676340000),
     (1676340000, 1678932000), (1678932000, 1681524000), (1681524000, 1684116000),
     (1684116000, 1686708000), (1686708000, 1689300000), (1689300000, 1691892000),
     (1691892000, 1694484000), (1694484000, 1697076000), (1697076000, 1699668000),
     (1699668000, 1700100000)]"
  by code_simp

lemma sorting_loop_prefix:
  "prefix (fst st) (fst (snd (sorting_loop sr since m tfs st)))"
proof (induction tfs arbitrary: st)
  case Nil
  then show ?case by simp
next
  case (Cons tf tfs)
  let ?r = "scan (sorting_verdict m since) (source_name m tf) (sr_listing sr m tf) st"
  have p: "prefix (fst st) (fst (snd ?r))" by (rule scan_prefix)
  show ?case
  proof (cases "fst ?r = Raised")
    case True
    with p show ?thesis by (cases ?r) simp
  next
    case False
    then have "sorting_loop sr since m (tf # tfs) st = sorting_loop sr since m tfs (snd ?r)"
      by (cases ?r; cases "fst ?r") auto
    with Cons.IH [of "snd ?r"] p show ?thesis by (auto intro: prefix_order.trans)
  qed
qed

lemma ex_cutoff: "fromtimestamp (1700100000 - 31536000) = Some 1668564000"
  by (simp add: fromtimestamp_def)

lemma ex_monthly:
  "collect_monthly_paginated ex_feed (1700100000 - 31536000) {} 1700100001 = Inr ([], {})"
  by code_simp

lemma ex_new:
  "collect_sorting ex_feed (1700100000 - 31536000) {} New
     = (ex_records, {VStr ''c1'', VStr ''p1''})"
  by code_simp

lemma ex_hot:
  "collect_sorting ex_feed (1700100000 - 31536000) {VStr ''c1'', VStr ''p1''} Hot
     = ([], {VStr ''c1'', VStr ''p1''})"
  by code_simp

lemma ex_top:
  "collect_sorting ex_feed (1700100000 - 31536000) {VStr ''c1'', VStr ''p1''} Top
     = ([], {VStr ''c1'', VStr ''p1''})"
  by code_simp

lemma ex_controversial:
  "collect_sorting ex_feed (1700100000 - 31536000) {VStr ''c1'', VStr ''p1''} Controversial
     = ([], {VStr ''c1'', VStr ''p1''})"
  by code_simp

lemma ex_search:
  "collect_search_posts ex_feed (1700100000 - 31536000) {VStr ''c1'', VStr ''p1''}
     = ([], {VStr ''c1'', VStr ''p1''})"
  by code_simp

lemma ex_flair:
  "collect_flair_posts ex_feed (1700100000 - 31536000) {VStr ''c1'', VStr ''p1''}
     = ([], {VStr ''c1'', VStr ''p1''})"
  by code_simp

lemma ex_main:
  "main ''DoorDash'' ex_feed 1700100000 1700100001 = finish ''DoorDash'' ex_records"
  using main_unfold [OF ex_cutoff ex_monthly ex_new ex_hot ex_top ex_controversial
      ex_search ex_flair, of "''DoorDash''"]
  by simp

lemma ex_saved:
  "raw_data (finish ''DoorDash'' ex_records) \<noteq> None"
  "processed_data (finish ''DoorDash'' ex_records) \<noteq> None"
  by code_simp+

lemma transform_data_success:
  assumes "transform_data d app_name h = (Inr t, h')"
  shows "d < length h \<and> (\<exists>out. normalized_frame app_name (h ! d) = Inr out \<and> t = Suc (length h)
            \<and> h' = h @ [h ! d, out])"
proof -
  have d: "d < length h"
    using assms transform_data_range [of d h app_name] by (cases "d < length h") auto
  show ?thesis
    using assms transform_data_normalize [OF d, of app_name] d
    by (cases "normalized_frame app_name (h ! d)") auto
qed

lemma subseq_kept: "subseq (filter kept rs) rs"
  by (rule subseq_filter_left)

lemma main_raw:
  assumes "raw_data (main app_name sr now now') = Some df"
  obtains all_data where "list_all record_ok all_data" "process_dataframe all_data = Inr df"
    "main app_name sr now now' = finish app_name all_data"
  using assms by (cases app_name sr now now' rule: main_cases) (auto dest: finish_raw)

lemma main_processed:
  assumes "processed_data (main app_name sr now now') = Some p"
  obtains all_data df where "list_all record_ok all_data" "process_dataframe all_data = Inr df"
    "raw_data (main app_name sr now now') = Some df" "normalized_frame app_name df = Inr p"
  using assms by (cases app_name sr now now' rule: main_cases) (auto dest: finish_processed)

lemma record_ok_datetime: "record_ok r \<Longrightarrow> \<exists>x. cell r ''timestamp_dt'' = VDatetime x"
  by (cases "cell r ''timestamp_dt''") (auto simp: record_ok_def)

lemma before_datetimes:
  "record_ok r \<Longrightarrow> record_ok r' \<Longrightarrow>
   before (cell r ''timestamp_dt'') (cell r' ''timestamp_dt'') \<Longrightarrow>
   \<exists>x y. cell r ''timestamp_dt'' = VDatetime x \<and> cell r' ''timestamp_dt'' = VDatetime y \<and> y \<le> x"
  using record_ok_datetime [of r] record_ok_datetime [of r'] by auto

lemma missing_None: "missing cs f = None \<longleftrightarrow> set cs \<subseteq> set (columns f)"
  by (auto simp: missing_def find_None_iff)

lemma columns_assign: "set (columns (assign c g f)) = insert c (set (columns f))"
  by (auto simp: assign_def)

lemma columns_rename: "columns (rename m f) = map (renamed m) (columns f)"
  by (simp add: rename_def)

lemma normalize_columns:
  assumes "normalized_frame app_name f = Inr out"
  shows "''review'' \<in> set (columns out)" "''review_datetime'' \<in> set (columns out)"
    "''complaint'' \<notin> set (columns out)"
proof -
  from assms obtain g where m: "missing [''complaint'', ''timestamp_dt'', ''upvotes'', ''total_comments''] f = None"
    and g: "dropna [''complaint'', ''timestamp_dt''] f = Inr g"
    and out: "drop_columns
                 [''id'', ''date'', ''type'', ''time'', ''timestamp'', ''url'',
                  ''permalink'', ''is_self_post'', ''source'', ''upvote_ratio'',
                  ''flair'', ''username'', ''title'']
                 (assign ''app_name'' (\<lambda>r. VStr app_name)
                    (assign ''data_source'' (\<lambda>r. VStr ''Reddit'')
                       (rename [(''complaint'', ''review''),
                                (''timestamp_dt'', ''review_datetime''),
                                (''upvotes'', ''upvote_count'')]
                          (assign ''complaint'' (\<lambda>r. str_lower (cell r ''complaint'')) g)))) = Inr out"
    unfolding normalized_frame_def by (auto split: option.splits sum.splits)
  define m where "m = [(''complaint'', ''review''), (''timestamp_dt'', ''review_datetime''),
             (''upvotes'', ''upvote_count'')]"
  define C where "C = set (columns (assign ''complaint'' (\<lambda>r. str_lower (cell r ''complaint'')) g))"
  define D where "D = set [''id'', ''date'', ''type'', ''time'', ''timestamp'', ''url'',
                  ''permalink'', ''is_self_post'', ''source'', ''upvote_ratio'',
                  ''flair'', ''username'', ''title'']"
  have cg: "columns g = columns f" using dropna_Inr [OF g] by simp
  from m have "''complaint'' \<in> set (columns f)" "''timestamp_dt'' \<in> set (columns f)"
    by (simp_all add: missing_None)
  then have in1: "''complaint'' \<in> C" "''timestamp_dt'' \<in> C"
    by (simp_all add: C_def columns_assign cg)
  have r1: "renamed m ''complaint'' = ''review''"
    and r2: "renamed m ''timestamp_dt'' = ''review_datetime''"
    by (simp_all add: renamed_def m_def)
  have r3: "renamed m k \<noteq> ''complaint''" for k
    by (simp add: renamed_def m_def)
  have cols: "set (columns out) = {c \<in> insert ''app_name'' (insert ''data_source'' (renamed m ` C)). c \<notin> D}"
    unfolding conjunct2 [OF drop_columns_Inr [OF out]] m_def C_def D_def
    by (simp only: set_filter columns_assign columns_rename set_map)
  have nd: "''review'' \<notin> D" "''review_datetime'' \<notin> D"
    by (simp_all add: D_def)
  have ne: "''complaint'' \<noteq> ''app_name''" "''complaint'' \<noteq> ''data_source''"
    by simp_all
  from in1(1) have "renamed m ''complaint'' \<in> renamed m ` C" by (rule imageI)
  with r1 have a: "''review'' \<in> renamed m ` C" by (simp only:)
  from in1(2) have "renamed m ''timestamp_dt'' \<in> renamed m ` C" by (rule imageI)
  with r2 have b: "''review_datetime'' \<in> renamed m ` C" by (simp only:)
  from a nd(1) show "''review'' \<in> set (columns out)"
    unfolding cols by blast
  from b nd(2) show "''review_datetime'' \<in> set (columns out)"
    unfolding cols by blast
  have "''complaint'' \<notin> renamed m ` C"
  proof
    assume "''complaint'' \<in> renamed m ` C"
    then obtain k where k: "''complaint'' = renamed m k" ..
    from r3 [of k] k [symmetric] show False by (rule notE)
  qed
  with ne show "''complaint'' \<notin> set (columns out)"
    unfolding cols by blast
qed

lemma normalized_row_ok:
  assumes "record_ok r0"
  shows "\<exists>t dt. map_of (normalized_row app_name r0) ''review'' = Some (VStr t)
           \<and> lower t = t \<and> \<not> list_ex is_upper t \<and> 5 \<le> length t
           \<and> map_of (normalized_row app_name r0) ''review_datetime'' = Some (VDatetime dt)"
proof -
  from assms obtain t where t: "cell r0 ''complaint'' = VStr t" and len: "5 \<le> length (strip t)"
    by (cases "cell r0 ''complaint''") (auto simp: record_ok_def body_text_ok_def)
  from assms obtain dt where dt: "cell r0 ''timestamp_dt'' = VDatetime dt"
    using record_ok_datetime by blast
  then have m: "map_of r0 ''timestamp_dt'' = Some (VDatetime dt)"
    by (cases "map_of r0 ''timestamp_dt''") (auto simp: cell_def)
  have "length (dropWhile isspace (rev (dropWhile isspace t))) \<le> length (rev (dropWhile isspace t))"
    by (rule length_dropWhile_le)
  also have "\<dots> \<le> length t" by (simp add: length_dropWhile_le)
  finally have "length (strip t) \<le> length t" by (simp add: strip_def)
  with len have l: "5 \<le> length (lower t)" by (simp add: length_lower)
  from assms have no: "''review'' \<notin> fst ` set r0" "''review_datetime'' \<notin> fst ` set r0"
    by (simp_all add: record_ok_def)
  show ?thesis
    using normalized_review [OF no(1), of app_name] normalized_review_datetime [OF no(2), of app_name]
      t m l lower_not_upper [of t] lower_idem [of t]
    by simp
qed

lemma renormalize_fails:
  assumes "normalized_frame app_name f = Inr out"
  shows "normalized_frame app_name' out = Inl (KeyError ''complaint'')"
  using normalize_columns(3) [OF assms]
  by (simp add: normalized_frame_def missing_def)

lemma ex_normalize: "\<not> isl (normalized_frame ''DoorDash'' (DataFrame ex_records))"
  by code_simp

lemma ex_author_raises:
  "extract_submission_data (Listed (ex_post\<lparr>s_author := AuthorRaises\<rparr>)) \<noteq> Inr None"
  by code_simp

lemma ex_frame: "\<not> isl (process_dataframe (ex_records @ ex_records))"
  by code_simp

lemma ex_frame_ids:
  "map (\<lambda>r. cell r ''id'')
     (case process_dataframe (ex_records @ ex_records) of Inr df \<Rightarrow> rows df | Inl e \<Rightarrow> [])
   = [VStr ''c1'', VStr ''p1'']"
  by code_simp

lemma ex_frame1: "\<not> isl (process_dataframe ex_records)"
  by code_simp

lemma ex_try:
  "submission_try (Listed (ex_post\<lparr>s_created_utc := None\<rparr>)) = None"
  "comment_try (ex_reply\<lparr>c_id := NoAttr\<rparr>) ex_post = None"
  by code_simp+

lemma scan_accept_collected:
  assumes "s_created_utc s = Some created" "v created = Take" "VStr (s_id s) \<notin> ids"
    "extract_submission_data (Listed s) = Inr (Some post)"
  shows "setitem post ''source'' (VStr tag)
           \<in> set (fst (snd (scan v tag (Item s # rest) (data, ids))))"
proof -
  obtain cs where cs: "process_comments s = Inr cs"
    using process_comments_total by blast
  let ?st = "snd (add_comments cs (data @ [setitem post ''source'' (VStr tag)],
                                   insert (VStr (s_id s)) ids))"
  have "prefix (data @ [setitem post ''source'' (VStr tag)]) (fst ?st)"
    using add_comments_prefix [of "(data @ [setitem post ''source'' (VStr tag)],
        insert (VStr (s_id s)) ids)" cs] by simp
  moreover have "prefix (fst ?st) (fst (snd (scan v tag rest ?st)))"
    by (rule scan_prefix)
  ultimately have "prefix (data @ [setitem post ''source'' (VStr tag)])
      (fst (snd (scan v tag rest ?st)))"
    by (rule prefix_order.trans)
  then have "set (data @ [setitem post ''source'' (VStr tag)])
      \<subseteq> set (fst (snd (scan v tag rest ?st)))"
    by (rule set_mono_prefix)
  then show ?thesis
    unfolding scan_accept [of s created v ids post cs tag rest data, OF assms cs] by simp
qed

lemma ex_sorted_new:
  "collect_sorting ex_sorted 1668564000 {} New = (ex_records, {VStr ''c1'', VStr ''p1''})"
  by code_simp

lemma ex_sorted_hot:
  "map (\<lambda>r. (cell r ''id'', cell r ''source'')) (fst (collect_sorting ex_sorted 1668564000 {} Hot))
     = [(VStr ''p2'', VStr ''hot'')]"
  by code_simp

lemma ex_next_accepted: "extract_submission_data (Listed ex_next) \<noteq> Inr None"
  by code_simp

lemma ex_raising_reply:
  "comment_loop ex_post [ex_reply\<lparr>c_id := AttrRaises, c_score := None\<rparr>, ex_reply] [] = []"
  "map (\<lambda>r. cell r ''id'') (comment_loop ex_post [ex_reply] []) = [VStr ''c1'']"
  by code_simp+

text \<open>The log line of a handler reads the id again. On an object whose id cannot be
  read, an exception of the body leaves \<^verbatim>\<open>extract_submission_data\<close>; on a comment
  whose id raises another exception than \<^verbatim>\<open>AttributeError\<close>, it leaves
  \<^verbatim>\<open>extract_comment_data\<close>.\<close>

lemma handler_reraises:
  "submission_try (Anonymous s) = None \<Longrightarrow> extract_submission_data (Anonymous s) = Inl Exception"
  "c_id c = AttrRaises \<Longrightarrow> comment_try c p = None \<Longrightarrow> extract_comment_data c p = Inl Exception"
  by (simp_all add: extract_submission_data_def extract_comment_data_def)

lemma ex_reraised:
  "extract_submission_data (Anonymous ex_post) = Inl Exception"
  "extract_comment_data (ex_reply\<lparr>c_id := AttrRaises\<rparr>) ex_post = Inl Exception"
  by code_simp+

section \<open>Properties\<close>

subsection \<open>C1: no id twice\<close>

text \<open>Claim C1. Every strategy passes over a submission whose id is already in
  \<^verbatim>\<open>processed_ids\<close> before it extracts it, and over a comment whose id is;
  \<^verbatim>\<open>process_dataframe\<close> keeps the first row of each id. So the ids of the frame it
  returns are pairwise distinct, in every run that saves a raw snapshot. The
  normalised frame has no \<^verbatim>\<open>id\<close> column any more: its rows are the images of a
  subsequence of the raw rows, whose ids are pairwise distinct.\<close>

theorem ids_pairwise_distinct:
  "(s_created_utc s = Some created \<and> v created = Take \<and> VStr (s_id s) \<in> ids \<longrightarrow>
      scan v tag (Item s # rest) (data, ids) = scan v tag rest (data, ids))
   \<and> (map_of item ''id'' = Some i \<and> i \<in> ids \<longrightarrow>
      add_comments (item # items) (data, ids) = add_comments items (data, ids))
   \<and> (process_dataframe all_data = Inr df \<longrightarrow> distinct (map (\<lambda>r. cell r ''id'') (rows df)))
   \<and> (raw_data (main app_name sr now now') = Some raw \<longrightarrow>
      distinct (map (\<lambda>r. cell r ''id'') (rows raw)))
   \<and> (processed_data (main app_name sr now now') = Some p \<longrightarrow>
      (\<exists>raw sub. raw_data (main app_name sr now now') = Some raw \<and> subseq sub (rows raw)
         \<and> distinct (map (\<lambda>r. cell r ''id'') sub)
         \<and> rows p = map (normalized_row app_name) sub))"
proof -
  have a: "s_created_utc s = Some created \<and> v created = Take \<and> VStr (s_id s) \<in> ids \<longrightarrow>
      scan v tag (Item s # rest) (data, ids) = scan v tag rest (data, ids)"
    using scan_seen by blast
  have b: "map_of item ''id'' = Some i \<and> i \<in> ids \<longrightarrow>
      add_comments (item # items) (data, ids) = add_comments items (data, ids)"
    by simp
  have c: "process_dataframe all_data = Inr df \<longrightarrow> distinct (map (\<lambda>r. cell r ''id'') (rows df))"
    using process_dataframe_distinct by blast
  have d: "distinct (map (\<lambda>r. cell r ''id'') (rows raw))"
    if "raw_data (main app_name sr now now') = Some raw" for raw
    using that by (rule main_raw) (rule process_dataframe_distinct)
  have e: "\<exists>raw sub. raw_data (main app_name sr now now') = Some raw \<and> subseq sub (rows raw)
         \<and> distinct (map (\<lambda>r. cell r ''id'') sub)
         \<and> rows p = map (normalized_row app_name) sub"
    if "processed_data (main app_name sr now now') = Some p"
    using that
  proof (rule main_processed)
    fix all_data raw
    assume r: "raw_data (main app_name sr now now') = Some raw"
      and n: "normalized_frame app_name raw = Inr p"
    have "distinct (map (\<lambda>r. cell r ''id'') (filter kept (rows raw)))"
      using d [OF r] by (rule distinct_map_filter)
    with r normalize_rows [OF n] subseq_kept [of "rows raw"] show ?thesis by blast
  qed
  from a b c d e show ?thesis by blast
qed

theorem ids_pairwise_distinct_witness:
  "(\<exists>raw. raw_data (main ''DoorDash'' ex_feed 1700100000 1700100001) = Some raw
      \<and> distinct (map (\<lambda>r. cell r ''id'') (rows raw)))
   \<and> (\<exists>p raw sub. processed_data (main ''DoorDash'' ex_feed 1700100000 1700100001) = Some p
      \<and> raw_data (main ''DoorDash'' ex_feed 1700100000 1700100001) = Some raw
      \<and> subseq sub (rows raw) \<and> distinct (map (\<lambda>r. cell r ''id'') sub)
      \<and> rows p = map (normalized_row ''DoorDash'') sub)
   \<and> (\<exists>df. process_dataframe (ex_records @ ex_records) = Inr df
      \<and> distinct (map (\<lambda>r. cell r ''id'') (rows df))
      \<and> map (\<lambda>r. cell r ''id'') (rows df) = [VStr ''c1'', VStr ''p1''])
   \<and> s_created_utc ex_post = Some 1700000000
   \<and> sorting_verdict Hot 1668564000 1700000000 = Take
   \<and> VStr (s_id ex_post) \<in> {VStr ''c1'', VStr ''p1''}
   \<and> scan (sorting_verdict Hot 1668564000) ''hot'' (Item ex_post # []) ([], {VStr ''c1'', VStr ''p1''})
       = scan (sorting_verdict Hot 1668564000) ''hot'' [] ([], {VStr ''c1'', VStr ''p1''})
   \<and> map_of [(''id'', VStr ''c1'')] ''id'' = Some (VStr ''c1'')
   \<and> add_comments ([(''id'', VStr ''c1'')] # []) ([], {VStr ''c1'', VStr ''p1''})
       = add_comments [] ([], {VStr ''c1'', VStr ''p1''})"
proof -
  obtain raw where raw: "raw_data (main ''DoorDash'' ex_feed 1700100000 1700100001) = Some raw"
    using ex_saved(1) by (auto simp: ex_main)
  obtain p where p: "processed_data (main ''DoorDash'' ex_feed 1700100000 1700100001) = Some p"
    using ex_saved(2) by (auto simp: ex_main)
  obtain df where df: "process_dataframe (ex_records @ ex_records) = Inr df"
    using ex_frame by (cases "process_dataframe (ex_records @ ex_records)") auto
  have o: "map (\<lambda>r. cell r ''id'') (rows df) = [VStr ''c1'', VStr ''p1'']"
    using ex_frame_ids by (simp add: df)
  have h: "s_created_utc ex_post = Some 1700000000"
    "sorting_verdict Hot 1668564000 1700000000 = Take"
    "VStr (s_id ex_post) \<in> {VStr ''c1'', VStr ''p1''}"
    "map_of [(''id'', VStr ''c1'')] ''id'' = Some (VStr ''c1'')"
    "VStr ''c1'' \<in> {VStr ''c1'', VStr ''p1''}"
    by (simp_all add: ex_post_def sorting_verdict_def)
  note t = ids_pairwise_distinct [where app_name = "''DoorDash''" and sr = ex_feed
      and now = 1700100000 and now' = 1700100001 and raw = raw and p = p
      and s = ex_post and created = 1700000000 and v = "sorting_verdict Hot 1668564000"
      and ids = "{VStr ''c1'', VStr ''p1''}" and tag = "''hot''" and rest = "[]" and data = "[]"
      and item = "[(''id'', VStr ''c1'')]" and i = "VStr ''c1''" and items = "[]"
      and all_data = "ex_records @ ex_records" and df = df]
  from t [THEN conjunct1, rule_format, OF conjI [OF h(1) conjI [OF h(2) h(3)]]]
  have 1: "scan (sorting_verdict Hot 1668564000) ''hot'' (Item ex_post # []) ([], {VStr ''c1'', VStr ''p1''})
       = scan (sorting_verdict Hot 1668564000) ''hot'' [] ([], {VStr ''c1'', VStr ''p1''})"
    .
  from t [THEN conjunct2, THEN conjunct1, rule_format, OF conjI [OF h(4) h(5)]]
  have 2: "add_comments ([(''id'', VStr ''c1'')] # []) ([], {VStr ''c1'', VStr ''p1''})
       = add_comments [] ([], {VStr ''c1'', VStr ''p1''})"
    .
  from t [THEN conjunct2, THEN conjunct2, THEN conjunct1] df
  have 3: "distinct (map (\<lambda>r. cell r ''id'') (rows df))" by (rule mp)
  from t [THEN conjunct2, THEN conjunct2, THEN conjunct2, THEN conjunct1] raw
  have 4: "distinct (map (\<lambda>r. cell r ''id'') (rows raw))" by (rule mp)
  from t [THEN conjunct2, THEN conjunct2, THEN conjunct2, THEN conjunct2] p
  have 5: "\<exists>raw sub. raw_data (main ''DoorDash'' ex_feed 1700100000 1700100001) = Some raw
      \<and> subseq sub (rows raw) \<and> distinct (map (\<lambda>r. cell r ''id'') sub)
      \<and> rows p = map (normalized_row ''DoorDash'') sub" by (rule mp)
  from raw 4 have a: "\<exists>raw. raw_data (main ''DoorDash'' ex_feed 1700100000 1700100001) = Some raw
      \<and> distinct (map (\<lambda>r. cell r ''id'') (rows raw))" by blast
  from p 5 have b: "\<exists>p raw sub. processed_data (main ''DoorDash'' ex_feed 1700100000 1700100001) = Some p
      \<and> raw_data (main ''DoorDash'' ex_feed 1700100000 1700100001) = Some raw
      \<and> subseq sub (rows raw) \<and> distinct (map (\<lambda>r. cell r ''id'') sub)
      \<and> rows p = map (normalized_row ''DoorDash'') sub" by blast
  from df 3 o have c: "\<exists>df. process_dataframe (ex_records @ ex_records) = Inr df
      \<and> distinct (map (\<lambda>r. cell r ''id'') (rows df))
      \<and> map (\<lambda>r. cell r ''id'') (rows df) = [VStr ''c1'', VStr ''p1'']"
    by (intro exI [of _ df]) simp
  from a b c h(1-4) 1 2 show ?thesis by (intro conjI)
qed

subsection \<open>C2: the text of an accepted record\<close>

text \<open>Claim C2. Every record an extractor returns has a text of at least five
  characters once stripped, and that text is neither \<^verbatim>\<open>[deleted]\<close> nor
  \<^verbatim>\<open>[removed]\<close>; so has every record in the output of each strategy. A
  submission whose title and self-text, joined by a space, strip to fewer than five
  characters is rejected with \<^verbatim>\<open>None\<close>, and so is a comment whose body strips to
  fewer than five characters or is one of the two sentinels. The text of a post is
  the joined text; the text of a comment is its body.\<close>

theorem accepted_text:
  "(extract_submission_data (Listed s) = Inr (Some d) \<longrightarrow> body_text_ok d)
   \<and> (extract_comment_data c p = Inr (Some d') \<longrightarrow> body_text_ok d' \<and> (\<exists>t. c_body c = Some t \<and> cell d' ''complaint'' = VStr t))
   \<and> (s_title s = Some title \<and> s_is_self s = Some is_self \<and> (is_self \<longrightarrow> s_selftext s = Some selftext)
        \<and> length (strip (title @ '' '' @ (if is_self then selftext else []))) < 5
        \<longrightarrow> extract_submission_data (Listed s) = Inr None)
   \<and> (extract_submission_data (Listed s) = Inr (Some d) \<and> s_title s = Some title \<and> s_is_self s = Some is_self
        \<and> (is_self \<longrightarrow> s_selftext s = Some selftext)
        \<longrightarrow> cell d ''complaint'' = VStr (title @ '' '' @ (if is_self then selftext else [])))
   \<and> (c_body c = Some body \<and> (length (strip body) < 5 \<or> body = ''[deleted]'' \<or> body = ''[removed]'')
        \<longrightarrow> extract_comment_data c p = Inr None)
   \<and> list_all body_text_ok (fst (collect_sorting sr since ids m))
   \<and> list_all body_text_ok (fst (collect_search_posts sr since ids))
   \<and> list_all body_text_ok (fst (collect_flair_posts sr since ids))
   \<and> (collect_monthly_paginated sr since ids now = Inr st \<longrightarrow> list_all body_text_ok (fst st))"
proof -
  have ok: "list_all record_ok xs \<Longrightarrow> list_all body_text_ok xs" for xs
    by (simp add: list_all_iff record_ok_def)
  have a: "extract_submission_data (Listed s) = Inr (Some d) \<longrightarrow> body_text_ok d"
    using submission_record_ok by (auto simp: record_ok_def)
  have b: "extract_comment_data c p = Inr (Some d') \<longrightarrow>
      body_text_ok d' \<and> (\<exists>t. c_body c = Some t \<and> cell d' ''complaint'' = VStr t)"
  proof
    assume h: "extract_comment_data c p = Inr (Some d')"
    then have "comment_try c p = Some (Some d')"
      by (simp add: extract_comment_data_def split: option.splits)
    from comment_try_text [OF this] comment_record_ok [OF h]
    show "body_text_ok d' \<and> (\<exists>t. c_body c = Some t \<and> cell d' ''complaint'' = VStr t)"
      by (auto simp: record_ok_def cell_def)
  qed
  have c: "s_title s = Some title \<and> s_is_self s = Some is_self \<and> (is_self \<longrightarrow> s_selftext s = Some selftext)
        \<and> length (strip (title @ '' '' @ (if is_self then selftext else []))) < 5
        \<longrightarrow> extract_submission_data (Listed s) = Inr None"
    by (auto simp: extract_submission_data_def submission_try_def Let_def
        split: option.splits bind_splits)
  have d: "extract_submission_data (Listed s) = Inr (Some d) \<and> s_title s = Some title \<and> s_is_self s = Some is_self
        \<and> (is_self \<longrightarrow> s_selftext s = Some selftext)
        \<longrightarrow> cell d ''complaint'' = VStr (title @ '' '' @ (if is_self then selftext else []))"
  proof
    assume h: "extract_submission_data (Listed s) = Inr (Some d) \<and> s_title s = Some title \<and> s_is_self s = Some is_self
        \<and> (is_self \<longrightarrow> s_selftext s = Some selftext)"
    then have "submission_try (Listed s) = Some (Some d)"
      by (simp add: extract_submission_data_def split: option.splits)
    from submission_try_text [OF this] h
    show "cell d ''complaint'' = VStr (title @ '' '' @ (if is_self then selftext else []))"
      by (auto simp: cell_def split: if_splits)
  qed
  have e: "c_body c = Some body \<and> (length (strip body) < 5 \<or> body = ''[deleted]'' \<or> body = ''[removed]'')
        \<longrightarrow> extract_comment_data c p = Inr None"
    by (auto simp: extract_comment_data_def comment_try_def)
  have f: "list_all body_text_ok (fst (collect_sorting sr since ids m))"
    using collect_sorting_ok [of sr since ids m] by (cases "collect_sorting sr since ids m") (simp add: ok)
  have g: "list_all body_text_ok (fst (collect_search_posts sr since ids))"
    using collect_search_ok [of sr since ids] by (cases "collect_search_posts sr since ids") (simp add: ok)
  have h: "list_all body_text_ok (fst (collect_flair_posts sr since ids))"
    using collect_flair_ok [of sr since ids] by (cases "collect_flair_posts sr since ids") (simp add: ok)
  have i: "collect_monthly_paginated sr since ids now = Inr st \<longrightarrow> list_all body_text_ok (fst st)"
    using collect_monthly_ok [of sr since ids now "fst st" "snd st"] by (simp add: ok)
  from a b c d e f g h i show ?thesis by blast
qed

theorem accepted_text_witness:
  "(\<exists>d. extract_submission_data (Listed ex_post) = Inr (Some d) \<and> body_text_ok d
        \<and> s_title ex_post = Some ''Late order'' \<and> s_is_self ex_post = Some True
        \<and> s_selftext ex_post = Some ''driver never showed''
        \<and> cell d ''complaint'' = VStr ''Late order driver never showed'')
   \<and> (\<exists>d'. extract_comment_data ex_reply ex_post = Inr (Some d') \<and> body_text_ok d'
        \<and> cell d' ''complaint'' = VStr ''Same HERE'')
   \<and> extract_submission_data (Listed (ex_post\<lparr>s_title := Some ''Hm'', s_is_self := Some False\<rparr>)) = Inr None
   \<and> extract_comment_data (ex_reply\<lparr>c_body := Some ''ok''\<rparr>) ex_post = Inr None
   \<and> extract_comment_data (ex_reply\<lparr>c_body := Some ''[removed]''\<rparr>) ex_post = Inr None
   \<and> list_all body_text_ok (fst (collect_sorting ex_feed 1668564000 {} New))
   \<and> fst (collect_sorting ex_feed 1668564000 {} New) \<noteq> []
   \<and> (\<exists>st. collect_monthly_paginated ex_feed 1668564000 {} 1700100001 = Inr st
        \<and> list_all body_text_ok (fst st))"
proof -
  obtain d where d: "extract_submission_data (Listed ex_post) = Inr (Some d)"
    using ex_post_accepted extract_submission_total [of ex_post] by (cases "extract_submission_data (Listed ex_post)") auto
  obtain d' where d': "extract_comment_data ex_reply ex_post = Inr (Some d')"
    using ex_reply_accepted extract_comment_total [of ex_reply ex_post]
    by (cases "extract_comment_data ex_reply ex_post") (auto simp: ex_reply_def)
  have f: "s_title ex_post = Some ''Late order''" "s_is_self ex_post = Some True"
    "s_selftext ex_post = Some ''driver never showed''" "c_body ex_reply = Some ''Same HERE''"
    by (simp_all add: ex_post_def ex_reply_def)
  have short: "length (strip (''Hm'' @ '' '' @ [])) < 5"
    by (simp add: strip_def isspace_def)
  have ok2: "length (strip ''ok'') < 5"
    by (simp add: strip_def isspace_def)
  have m: "collect_monthly_paginated ex_feed 1668564000 {} 1700100001 = Inr ([], {})"
    using ex_monthly by simp
  have n: "fst (collect_sorting ex_feed 1668564000 {} New) \<noteq> []"
    using ex_new by (simp add: ex_records_def)
  note t = accepted_text [where s = ex_post and d = d and c = ex_reply and p = ex_post and d' = d'
      and sr = ex_feed and since = 1668564000 and ids = "{}" and m = New
      and title = "''Late order''" and is_self = True and selftext = "''driver never showed''"
      and now = 1700100001 and st = "([], {})"]
  note u = accepted_text [where s = "ex_post\<lparr>s_title := Some ''Hm'', s_is_self := Some False\<rparr>"
      and title = "''Hm''" and is_self = False and c = "ex_reply\<lparr>c_body := Some ''ok''\<rparr>"
      and body = "''ok''" and p = ex_post]
  note w = accepted_text [where c = "ex_reply\<lparr>c_body := Some ''[removed]''\<rparr>"
      and body = "''[removed]''" and p = ex_post]
  from t d d' have 1: "body_text_ok d" "body_text_ok d'"
    "list_all body_text_ok (fst (collect_sorting ex_feed 1668564000 {} New))" by blast+
  from t d f have 4: "cell d ''complaint'' = VStr ''Late order driver never showed''" by simp
  from t d' f have 5: "cell d' ''complaint'' = VStr ''Same HERE''" by auto
  from t m have 6: "list_all body_text_ok (fst ([] :: pydict list, {} :: pyval set))" by blast
  from u short ok2 have 2:
    "extract_submission_data (Listed (ex_post\<lparr>s_title := Some ''Hm'', s_is_self := Some False\<rparr>)) = Inr None"
    "extract_comment_data (ex_reply\<lparr>c_body := Some ''ok''\<rparr>) ex_post = Inr None"
    by simp_all
  from w have 3: "extract_comment_data (ex_reply\<lparr>c_body := Some ''[removed]''\<rparr>) ex_post = Inr None"
    by simp
  from d d' f 1 2 3 4 5 6 m n show ?thesis by blast
qed

subsection \<open>C3: an exception in a listing\<close>

text \<open>Claim C3 says that an exception is scoped to the item or page it occurs on and
  that the strategy goes on with the next item or page. In the flair search below
  the first page of the listing for \<^verbatim>\<open>flair:Complaint\<close> cannot be fetched; the
  submission the listing would have served next is acceptable, and is collected
  when the page can be fetched, but the strategy returns nothing: the \<^verbatim>\<open>try\<close>
  encloses the whole \<^verbatim>\<open>async for\<close>, so the exception ends the listing. The same
  happens when the listing serves a submission whose \<^verbatim>\<open>created_utc\<close> cannot be
  read: the submission after it is not looked at.\<close>

theorem page_failure_counterexample:
  "sr_search ex_failing ''flair:Complaint'' (Some ''year'') = [Failure, Item ex_post]
   \<and> ''Complaint'' \<in> set flairs
   \<and> extract_submission_data (Listed ex_post) \<noteq> Inr None
   \<and> collect_flair_posts ex_failing 1668564000 {} = ([], {})
   \<and> fst (collect_flair_posts
             (ex_failing\<lparr>sr_search := (\<lambda>q tf. if q = ''flair:Complaint'' then [Item ex_post] else [])\<rparr>)
             1668564000 {}) \<noteq> []
   \<and> collect_flair_posts
         (ex_failing\<lparr>sr_search := (\<lambda>q tf. if q = ''flair:Complaint''
              then [Item (ex_post\<lparr>s_id := ''p0'', s_created_utc := None\<rparr>), Item ex_post]
              else [])\<rparr>)
         1668564000 {} = ([], {})"
  by code_simp

text \<open>Claim C3, amended. An exception raised while a listing is iterated, by the
  fetch of a page or by the loop body on an item, ends that listing: what follows
  it in the listing is not processed, the scan does not end as an exhausted
  listing does, and every record accepted before it stays in the output of the
  strategy (so it does in the sort-order strategy). The keyword
  search, the flair search and the windowed strategy then go on with the next
  term, flair or window, whatever the ending of the listing before.\<close>

theorem exceptions_end_the_listing:
  "(s_created_utc s = None \<longrightarrow> scan v tag (Item s # rest) st = (Raised, st))
   \<and> scan v tag (pre @ Failure # rest) st = scan v tag (pre @ [Failure]) st
   \<and> fst (scan v tag (pre @ [Failure]) st) \<noteq> Exhausted
   \<and> prefix (fst st) (fst (snd (scan v tag es st)))
   \<and> prefix (fst st) (fst (snd (sorting_loop sr since m tfs st)))
   \<and> search_loop sr since (qs @ q # qs') st =
       search_loop sr since qs'
         (snd (scan (since_verdict since) (''search_'' @ q) (sr_search sr q (Some ''year''))
                 (search_loop sr since qs st)))
   \<and> flair_loop sr since (fs @ flair # fs') st =
       flair_loop sr since fs'
         (snd (scan (since_verdict since) (''flair_'' @ flair)
                 (sr_search sr (''flair:'' @ flair) (Some ''year''))
                 (flair_loop sr since fs st)))
   \<and> (fromtimestamp a \<noteq> None \<and> fromtimestamp b \<noteq> None \<longrightarrow>
        monthly_loop sr a b st = Inr (foldl (window_pass sr) st (month_windows a b)))"
proof -
  have ne: "fst (scan v tag (pre @ [Failure]) st') \<noteq> Exhausted" for st'
  proof (induction pre arbitrary: st')
    case Nil
    then show ?case by simp
  next
    case (Cons e pre)
    show ?case
    proof (cases e)
      case Failure
      then show ?thesis by simp
    next
      case (Item s)
      show ?thesis unfolding Item
        by (cases "item_step v tag s st'"; cases "fst (item_step v tag s st')")
          (auto simp: scan_Item Cons.IH item_step_def
            split: option.splits verdict.splits sum.splits if_splits prod.splits bool.splits)
    qed
  qed
  have item: "s_created_utc s = None \<longrightarrow> scan v tag (Item s # rest) st = (Raised, st)"
    by (cases st) (simp add: scan.simps(3))
  show ?thesis
    using item scan_failure [of v tag pre rest st] ne [of st] scan_prefix [of st v tag es]
      sorting_loop_prefix [of st sr since m tfs]
      search_loop_append [of sr since qs "q # qs'" st]
      flair_loop_append [of sr since fs "flair # fs'" st]
      monthly_loop_windows [of a b sr st]
    by simp
qed

theorem exceptions_end_the_listing_witness:
  "s_created_utc (ex_post\<lparr>s_created_utc := None\<rparr>) = None
   \<and> scan (since_verdict 1668564000) ''flair_Complaint''
         (Item (ex_post\<lparr>s_created_utc := None\<rparr>) # [Item ex_post]) ([], {}) = (Raised, ([], {}))
   \<and> scan (since_verdict 1668564000) ''flair_Complaint'' ([] @ Failure # [Item ex_post]) ([], {})
     = scan (since_verdict 1668564000) ''flair_Complaint'' ([] @ [Failure]) ([], {})
   \<and> fromtimestamp 1668564000 \<noteq> None \<and> fromtimestamp 1700100000 \<noteq> None
   \<and> monthly_loop ex_failing 1668564000 1700100000 ([], {})
       = Inr (foldl (window_pass ex_failing) ([], {}) (month_windows 1668564000 1700100000))
   \<and> flair_loop ex_failing 1668564000 ([] @ ''Complaint'' # [''Issue'']) ([], {}) =
       flair_loop ex_failing 1668564000 [''Issue'']
         (snd (scan (since_verdict 1668564000) (''flair_'' @ ''Complaint'')
                 (sr_search ex_failing (''flair:'' @ ''Complaint'') (Some ''year''))
                 (flair_loop ex_failing 1668564000 [] ([], {}))))"
proof -
  have r: "fromtimestamp 1668564000 \<noteq> None \<and> fromtimestamp 1700100000 \<noteq> None"
    by (simp add: fromtimestamp_def)
  have n: "s_created_utc (ex_post\<lparr>s_created_utc := None\<rparr>) = None" by simp
  from exceptions_end_the_listing [where v = "since_verdict 1668564000"
      and s = "ex_post\<lparr>s_created_utc := None\<rparr>"
      and tag = "''flair_Complaint''" and pre = "[]" and rest = "[Item ex_post]"
      and st = "([], {})" and sr = ex_failing and since = 1668564000 and fs = "[]"
      and flair = "''Complaint''" and fs' = "[''Issue'']" and a = 1668564000 and b = 1700100000] r n
  show ?thesis by blast
qed

subsection \<open>C4: the windows\<close>

text \<open>Claim C4. When the start lies before the clock reading \<open>now\<close>, the
  windowed strategy walks through at least one window; the first starts at the
  start, each ends where the next begins, each ends at the minimum of its start
  plus thirty days and \<open>now\<close> and after its start, no window begins before an
  earlier one has ended, and the last ends at \<open>now\<close>. These windows are the ones
  of the loop: the strategy is the fold of the loop body over them.\<close>

theorem windows_contiguous:
  assumes "start_timestamp < now"
  shows "month_windows start_timestamp now \<noteq> []
    \<and> fst (hd (month_windows start_timestamp now)) = start_timestamp
    \<and> snd (last (month_windows start_timestamp now)) = now
    \<and> (\<forall>i. Suc i < length (month_windows start_timestamp now) \<longrightarrow>
          snd (month_windows start_timestamp now ! i)
            = fst (month_windows start_timestamp now ! Suc i))
    \<and> (\<forall>w \<in> set (month_windows start_timestamp now).
          fst w < snd w \<and> snd w = min (fst w + 30 * 24 * 60 * 60) now)
    \<and> sorted_wrt (\<lambda>w w'. snd w \<le> fst w') (month_windows start_timestamp now)
    \<and> (fromtimestamp start_timestamp \<noteq> None \<and> fromtimestamp now \<noteq> None \<longrightarrow>
          collect_monthly_paginated sr start_timestamp ids now
            = Inr (foldl (window_pass sr) ([], ids) (month_windows start_timestamp now)))"
proof -
  have "month_windows start_timestamp now \<noteq> []"
    using assms by (simp add: month_windows_Cons)
  moreover have "\<forall>w \<in> set (month_windows start_timestamp now).
          fst w < snd w \<and> snd w = min (fst w + 30 * 24 * 60 * 60) now"
  proof
    fix w assume "w \<in> set (month_windows start_timestamp now)"
    from month_windows_bounds [OF this]
    show "fst w < snd w \<and> snd w = min (fst w + 30 * 24 * 60 * 60) now" by simp
  qed
  moreover have "fromtimestamp start_timestamp \<noteq> None \<and> fromtimestamp now \<noteq> None \<longrightarrow>
          collect_monthly_paginated sr start_timestamp ids now
            = Inr (foldl (window_pass sr) ([], ids) (month_windows start_timestamp now))"
    by (simp add: collect_monthly_paginated_def monthly_loop_windows)
  ultimately show ?thesis
    using month_windows_hd [OF assms] month_windows_last [OF assms]
      month_windows_chain [of _ start_timestamp now]
      month_windows_ordered [of start_timestamp now]
    by blast
qed

theorem windows_contiguous_witness:
  "(1668564000::int) < 1700100000
   \<and> length (month_windows 1668564000 1700100000) = 13
   \<and> fst (hd (month_windows 1668564000 1700100000)) = 1668564000
   \<and> snd (last (month_windows 1668564000 1700100000)) = 1700100000
   \<and> sorted_wrt (\<lambda>w w'. snd w \<le> fst w') (month_windows 1668564000 1700100000)
   \<and> collect_monthly_paginated ex_feed 1668564000 {} 1700100000
        = Inr (foldl (window_pass ex_feed) ([], {}) (month_windows 1668564000 1700100000))"
proof -
  have h: "(1668564000::int) < 1700100000" by simp
  have r: "fromtimestamp 1668564000 \<noteq> None \<and> fromtimestamp 1700100000 \<noteq> None"
    by (simp add: fromtimestamp_def)
  have l: "length (month_windows 1668564000 1700100000) = 13"
    by (simp add: ex_windows)
  from windows_contiguous [OF h, of ex_feed "{}"] r l h show ?thesis by blast
qed

subsection \<open>C5: the early exit of the newest order\<close>

text \<open>Claim C5. Under the order \<^verbatim>\<open>new\<close> a submission older than the cutoff ends the
  scan: it ends with \<^verbatim>\<open>break\<close> and leaves what was collected as it is, whatever
  follows; the records collected from a listing are those collected from the items
  before the old submission, the scan does not run to the end of the listing, and
  the strategy returns them. A recent submission that is new to \<^verbatim>\<open>processed_ids\<close>
  and that the extractor accepts is collected under every order: its record,
  tagged, is in the output. So under \<^verbatim>\<open>new\<close> a recent submission followed by an old
  one gives the \<^verbatim>\<open>break\<close> with the records of the recent one and its comments, and
  nothing of what follows; that is what the strategy returns. Under the other
  orders an old submission is skipped and the scan goes on with the items after it:
  a recent submission that follows it is collected, and is in what the strategy
  returns when the two stand at the head of its first listing.\<close>

theorem newest_early_exit:
  "(s_created_utc s = Some created \<and> created < since \<longrightarrow>
      scan (sorting_verdict New since) tag (Item s # rest) st = (Broke, st))
   \<and> (s_created_utc s = Some created \<and> created < since \<longrightarrow>
      snd (scan (sorting_verdict New since) tag (pre @ Item s # rest) st)
        = snd (scan (sorting_verdict New since) tag pre st)
      \<and> fst (scan (sorting_verdict New since) tag (pre @ Item s # rest) st) \<noteq> Exhausted)
   \<and> (s_created_utc s = Some created \<and> created < since
        \<and> sr_listing sr New None = pre @ Item s # rest \<longrightarrow>
      collect_sorting sr since ids New
        = snd (scan (sorting_verdict New since) ''new'' pre ([], ids)))
   \<and> (s_created_utc s = Some created \<and> created < since \<and> m \<noteq> New \<longrightarrow>
      scan (sorting_verdict m since) tag (Item s # rest) st
        = scan (sorting_verdict m since) tag rest st)
   \<and> (s_created_utc s' = Some created' \<and> since \<le> created' \<and> VStr (s_id s') \<notin> ids
        \<and> extract_submission_data (Listed s') = Inr (Some post) \<longrightarrow>
      (\<exists>cs. process_comments s' = Inr cs
         \<and> scan (sorting_verdict m since) tag (Item s' # rest) (data, ids)
             = scan (sorting_verdict m since) tag rest
                 (snd (add_comments cs (data @ [setitem post ''source'' (VStr tag)],
                                        insert (VStr (s_id s')) ids))))
      \<and> setitem post ''source'' (VStr tag)
           \<in> set (fst (snd (scan (sorting_verdict m since) tag (Item s' # rest) (data, ids)))))
   \<and> (s_created_utc s = Some created \<and> created < since
        \<and> s_created_utc s' = Some created' \<and> since \<le> created' \<and> VStr (s_id s') \<notin> ids
        \<and> extract_submission_data (Listed s') = Inr (Some post) \<longrightarrow>
      (\<exists>cs. process_comments s' = Inr cs
         \<and> scan (sorting_verdict New since) tag (Item s' # Item s # rest) (data, ids)
             = (Broke, snd (add_comments cs (data @ [setitem post ''source'' (VStr tag)],
                                             insert (VStr (s_id s')) ids)))))
   \<and> (s_created_utc s = Some created \<and> created < since \<and> m \<noteq> New
        \<and> s_created_utc s' = Some created' \<and> since \<le> created' \<and> VStr (s_id s') \<notin> ids
        \<and> extract_submission_data (Listed s') = Inr (Some post) \<longrightarrow>
      setitem post ''source'' (VStr tag)
        \<in> set (fst (snd (scan (sorting_verdict m since) tag (Item s # Item s' # rest) (data, ids)))))
   \<and> (s_created_utc s = Some created \<and> created < since
        \<and> s_created_utc s' = Some created' \<and> since \<le> created' \<and> VStr (s_id s') \<notin> ids
        \<and> extract_submission_data (Listed s') = Inr (Some post)
        \<and> sr_listing sr New None = Item s' # Item s # rest \<longrightarrow>
      (\<exists>cs. process_comments s' = Inr cs
         \<and> collect_sorting sr since ids New
             = snd (add_comments cs ([] @ [setitem post ''source'' (VStr ''new'')],
                                     insert (VStr (s_id s')) ids))))
   \<and> (s_created_utc s = Some created \<and> created < since \<and> m \<noteq> New
        \<and> s_created_utc s' = Some created' \<and> since \<le> created' \<and> VStr (s_id s') \<notin> ids
        \<and> extract_submission_data (Listed s') = Inr (Some post)
        \<and> time_filters m = tf # tfs \<and> sr_listing sr m tf = Item s # Item s' # rest \<longrightarrow>
      setitem post ''source'' (VStr (source_name m tf))
        \<in> set (fst (collect_sorting sr since ids m)))"
proof -
  have brk: "scan (sorting_verdict New since) tag' (Item s # rest') st' = (Broke, st')"
    if "s_created_utc s = Some created" "created < since" for tag' rest' st'
    using that by (simp add: scan_Item item_step_stop [of s created] sorting_verdict_def)
  have stop: "snd (scan (sorting_verdict New since) tag' (pre @ Item s # rest) st')
        = snd (scan (sorting_verdict New since) tag' pre st')"
    if "s_created_utc s = Some created" "created < since" for tag' st'
    using that by (intro scan_stop [of s created]) (simp_all add: sorting_verdict_def)
  have ne: "fst (scan (sorting_verdict New since) tag (pre' @ Item s # rest) st') \<noteq> Exhausted"
    if "s_created_utc s = Some created" "created < since" for pre' st'
  proof (induction pre' arbitrary: st')
    case Nil
    show ?case using brk [OF that] by simp
  next
    case (Cons e pre')
    show ?case
    proof (cases e)
      case Failure
      then show ?thesis by simp
    next
      case (Item x)
      obtain r st1 where r: "item_step (sorting_verdict New since) tag x st' = (r, st1)"
        by (cases "item_step (sorting_verdict New since) tag x st'")
      have "r \<noteq> Some Exhausted"
        using r by (auto simp: item_step_def
            split: option.splits verdict.splits sum.splits if_splits prod.splits bool.splits)
      then show ?thesis
        unfolding Item using Cons.IH [of st1] by (cases r) (auto simp: scan_Item r)
    qed
  qed
  have b: "s_created_utc s = Some created \<and> created < since
        \<and> sr_listing sr New None = pre @ Item s # rest \<longrightarrow>
      collect_sorting sr since ids New
        = snd (scan (sorting_verdict New since) ''new'' pre ([], ids))"
  proof
    assume h: "s_created_utc s = Some created \<and> created < since
        \<and> sr_listing sr New None = pre @ Item s # rest"
    let ?r = "scan (sorting_verdict New since) ''new'' (pre @ Item s # rest) ([], ids)"
    have "collect_sorting sr since ids New = snd ?r"
      using h by (cases ?r; cases "fst ?r")
        (simp_all add: collect_sorting_def time_filters_def source_name_def)
    with stop [of "''new''" "([], ids)"] h show "collect_sorting sr since ids New
        = snd (scan (sorting_verdict New since) ''new'' pre ([], ids))" by simp
  qed
  have skip: "scan (sorting_verdict m since) tag' (Item s # rest') st'
        = scan (sorting_verdict m since) tag' rest' st'"
    if "s_created_utc s = Some created" "created < since" "m \<noteq> New" for tag' rest' st'
    using that by (intro scan_skip [of s created]) (simp_all add: sorting_verdict_def)
  have take: "sorting_verdict m' since created' = Take" if "since \<le> created'" for m'
    using that by (simp add: sorting_verdict_def)
  have acc: "\<exists>cs. process_comments s' = Inr cs
         \<and> scan (sorting_verdict m' since) tag' (Item s' # rest') (data', ids)
             = scan (sorting_verdict m' since) tag' rest'
                 (snd (add_comments cs (data' @ [setitem post ''source'' (VStr tag')],
                                        insert (VStr (s_id s')) ids)))"
    if "s_created_utc s' = Some created'" "since \<le> created'" "VStr (s_id s') \<notin> ids"
      "extract_submission_data (Listed s') = Inr (Some post)" for m' rest' tag' data'
  proof -
    obtain cs where cs: "process_comments s' = Inr cs"
      using process_comments_total by blast
    from scan_accept [of s' created' "sorting_verdict m' since" ids post cs tag' rest' data',
        OF that(1) take [OF that(2)] that(3,4) cs] cs
    show ?thesis by (intro exI [of _ cs]) simp
  qed
  have mem: "setitem post ''source'' (VStr tag')
           \<in> set (fst (snd (scan (sorting_verdict m' since) tag' (Item s' # rest') (data', ids))))"
    if "s_created_utc s' = Some created'" "since \<le> created'" "VStr (s_id s') \<notin> ids"
      "extract_submission_data (Listed s') = Inr (Some post)" for m' rest' tag' data'
    by (rule scan_accept_collected [of s' created' "sorting_verdict m' since" ids post,
          OF that(1) take [OF that(2)] that(3,4)])
  have c1: "s_created_utc s = Some created \<and> created < since \<longrightarrow>
      scan (sorting_verdict New since) tag (Item s # rest) st = (Broke, st)"
    using brk by blast
  have c2: "s_created_utc s = Some created \<and> created < since \<longrightarrow>
      snd (scan (sorting_verdict New since) tag (pre @ Item s # rest) st)
        = snd (scan (sorting_verdict New since) tag pre st)
      \<and> fst (scan (sorting_verdict New since) tag (pre @ Item s # rest) st) \<noteq> Exhausted"
    using stop [of tag st] ne [of pre st] by blast
  have c4: "s_created_utc s = Some created \<and> created < since \<and> m \<noteq> New \<longrightarrow>
      scan (sorting_verdict m since) tag (Item s # rest) st
        = scan (sorting_verdict m since) tag rest st"
    using skip by blast
  have c5: "s_created_utc s' = Some created' \<and> since \<le> created' \<and> VStr (s_id s') \<notin> ids
        \<and> extract_submission_data (Listed s') = Inr (Some post) \<longrightarrow>
      (\<exists>cs. process_comments s' = Inr cs
         \<and> scan (sorting_verdict m since) tag (Item s' # rest) (data, ids)
             = scan (sorting_verdict m since) tag rest
                 (snd (add_comments cs (data @ [setitem post ''source'' (VStr tag)],
                                        insert (VStr (s_id s')) ids))))
      \<and> setitem post ''source'' (VStr tag)
           \<in> set (fst (snd (scan (sorting_verdict m since) tag (Item s' # rest) (data, ids))))"
    using acc [where m' = m and rest' = rest and tag' = tag and data' = data]
      mem [where m' = m and rest' = rest and tag' = tag and data' = data] by blast
  have c6: "s_created_utc s = Some created \<and> created < since
        \<and> s_created_utc s' = Some created' \<and> since \<le> created' \<and> VStr (s_id s') \<notin> ids
        \<and> extract_submission_data (Listed s') = Inr (Some post) \<longrightarrow>
      (\<exists>cs. process_comments s' = Inr cs
         \<and> scan (sorting_verdict New since) tag (Item s' # Item s # rest) (data, ids)
             = (Broke, snd (add_comments cs (data @ [setitem post ''source'' (VStr tag)],
                                             insert (VStr (s_id s')) ids))))"
  proof
    assume h: "s_created_utc s = Some created \<and> created < since
        \<and> s_created_utc s' = Some created' \<and> since \<le> created' \<and> VStr (s_id s') \<notin> ids
        \<and> extract_submission_data (Listed s') = Inr (Some post)"
    then obtain cs where cs: "process_comments s' = Inr cs"
      and eq: "scan (sorting_verdict New since) tag (Item s' # Item s # rest) (data, ids)
             = scan (sorting_verdict New since) tag (Item s # rest)
                 (snd (add_comments cs (data @ [setitem post ''source'' (VStr tag)],
                                        insert (VStr (s_id s')) ids)))"
      using acc [where m' = New and rest' = "Item s # rest" and tag' = tag and data' = data]
      by blast
    from h have "s_created_utc s = Some created" "created < since" by simp_all
    from brk [OF this] eq cs
    show "\<exists>cs. process_comments s' = Inr cs
         \<and> scan (sorting_verdict New since) tag (Item s' # Item s # rest) (data, ids)
             = (Broke, snd (add_comments cs (data @ [setitem post ''source'' (VStr tag)],
                                             insert (VStr (s_id s')) ids)))"
      by (intro exI [of _ cs]) simp
  qed
  have c7: "s_created_utc s = Some created \<and> created < since \<and> m \<noteq> New
        \<and> s_created_utc s' = Some created' \<and> since \<le> created' \<and> VStr (s_id s') \<notin> ids
        \<and> extract_submission_data (Listed s') = Inr (Some post) \<longrightarrow>
      setitem post ''source'' (VStr tag)
        \<in> set (fst (snd (scan (sorting_verdict m since) tag (Item s # Item s' # rest) (data, ids))))"
  proof
    assume h: "s_created_utc s = Some created \<and> created < since \<and> m \<noteq> New
        \<and> s_created_utc s' = Some created' \<and> since \<le> created' \<and> VStr (s_id s') \<notin> ids
        \<and> extract_submission_data (Listed s') = Inr (Some post)"
    then have "scan (sorting_verdict m since) tag (Item s # Item s' # rest) (data, ids)
        = scan (sorting_verdict m since) tag (Item s' # rest) (data, ids)"
      using skip [where tag' = tag and rest' = "Item s' # rest" and st' = "(data, ids)"] by blast
    moreover from h have "setitem post ''source'' (VStr tag)
           \<in> set (fst (snd (scan (sorting_verdict m since) tag (Item s' # rest) (data, ids))))"
      using mem [where m' = m and rest' = rest and tag' = tag and data' = data] by blast
    ultimately show "setitem post ''source'' (VStr tag)
        \<in> set (fst (snd (scan (sorting_verdict m since) tag (Item s # Item s' # rest) (data, ids))))"
      by simp
  qed
  have c8: "s_created_utc s = Some created \<and> created < since
        \<and> s_created_utc s' = Some created' \<and> since \<le> created' \<and> VStr (s_id s') \<notin> ids
        \<and> extract_submission_data (Listed s') = Inr (Some post)
        \<and> sr_listing sr New None = Item s' # Item s # rest \<longrightarrow>
      (\<exists>cs. process_comments s' = Inr cs
         \<and> collect_sorting sr since ids New
             = snd (add_comments cs ([] @ [setitem post ''source'' (VStr ''new'')],
                                     insert (VStr (s_id s')) ids)))"
  proof
    assume h: "s_created_utc s = Some created \<and> created < since
        \<and> s_created_utc s' = Some created' \<and> since \<le> created' \<and> VStr (s_id s') \<notin> ids
        \<and> extract_submission_data (Listed s') = Inr (Some post)
        \<and> sr_listing sr New None = Item s' # Item s # rest"
    then obtain cs where cs: "process_comments s' = Inr cs"
      and eq: "scan (sorting_verdict New since) ''new'' (Item s' # Item s # rest) ([], ids)
             = scan (sorting_verdict New since) ''new'' (Item s # rest)
                 (snd (add_comments cs ([] @ [setitem post ''source'' (VStr ''new'')],
                                        insert (VStr (s_id s')) ids)))"
      using acc [where m' = New and rest' = "Item s # rest" and tag' = "''new''"
          and data' = "[]"] by blast
    from h have "s_created_utc s = Some created" "created < since" by simp_all
    from brk [OF this] eq
    have r: "scan (sorting_verdict New since) ''new'' (Item s' # Item s # rest) ([], ids)
        = (Broke, snd (add_comments cs ([] @ [setitem post ''source'' (VStr ''new'')],
                                        insert (VStr (s_id s')) ids)))"
      by simp
    from h have l: "sr_listing sr New None = Item s' # Item s # rest" by simp
    have "collect_sorting sr since ids New
        = snd (add_comments cs ([] @ [setitem post ''source'' (VStr ''new'')],
                                insert (VStr (s_id s')) ids))"
      by (simp add: collect_sorting_def time_filters_def source_name_def l r)
    with cs show "\<exists>cs. process_comments s' = Inr cs
         \<and> collect_sorting sr since ids New
             = snd (add_comments cs ([] @ [setitem post ''source'' (VStr ''new'')],
                                     insert (VStr (s_id s')) ids))"
      by (intro exI [of _ cs]) simp
  qed
  have c9: "s_created_utc s = Some created \<and> created < since \<and> m \<noteq> New
        \<and> s_created_utc s' = Some created' \<and> since \<le> created' \<and> VStr (s_id s') \<notin> ids
        \<and> extract_submission_data (Listed s') = Inr (Some post)
        \<and> time_filters m = tf # tfs \<and> sr_listing sr m tf = Item s # Item s' # rest \<longrightarrow>
      setitem post ''source'' (VStr (source_name m tf))
        \<in> set (fst (collect_sorting sr since ids m))"
  proof
    assume h: "s_created_utc s = Some created \<and> created < since \<and> m \<noteq> New
        \<and> s_created_utc s' = Some created' \<and> since \<le> created' \<and> VStr (s_id s') \<notin> ids
        \<and> extract_submission_data (Listed s') = Inr (Some post)
        \<and> time_filters m = tf # tfs \<and> sr_listing sr m tf = Item s # Item s' # rest"
    let ?r = "scan (sorting_verdict m since) (source_name m tf) (sr_listing sr m tf) ([], ids)"
    from h have "?r = scan (sorting_verdict m since) (source_name m tf) (Item s' # rest) ([], ids)"
      using skip [where tag' = "source_name m tf" and rest' = "Item s' # rest"
          and st' = "([], ids)"] by simp
    moreover from h have "setitem post ''source'' (VStr (source_name m tf))
        \<in> set (fst (snd (scan (sorting_verdict m since) (source_name m tf)
                            (Item s' # rest) ([], ids))))"
      using mem [where m' = m and rest' = rest and tag' = "source_name m tf" and data' = "[]"]
      by blast
    ultimately have m1: "setitem post ''source'' (VStr (source_name m tf)) \<in> set (fst (snd ?r))"
      by simp
    have "prefix (fst (snd ?r)) (fst (collect_sorting sr since ids m))"
    proof (cases "fst ?r = Raised")
      case True
      then show ?thesis using h
        by (cases ?r) (simp add: collect_sorting_def)
    next
      case False
      then have "sorting_loop sr since m (tf # tfs) ([], ids) = sorting_loop sr since m tfs (snd ?r)"
        by (cases ?r; cases "fst ?r") simp_all
      with h sorting_loop_prefix [of "snd ?r" sr since m tfs] show ?thesis
        by (simp add: collect_sorting_def)
    qed
    from set_mono_prefix [OF this] m1
    show "setitem post ''source'' (VStr (source_name m tf))
        \<in> set (fst (collect_sorting sr since ids m))" by blast
  qed
  from c1 c2 b c4 c5 c6 c7 c8 c9 show ?thesis by (intro conjI)
qed

theorem newest_early_exit_witness:
  "s_created_utc ex_old = Some 1000 \<and> (1000::int) < 1668564000
   \<and> scan (sorting_verdict New 1668564000) ''new'' (Item ex_old # [Item ex_next]) ([], {})
       = (Broke, ([], {}))
   \<and> sr_listing ex_sorted New None = [Item ex_post] @ Item ex_old # [Item ex_next]
   \<and> collect_sorting ex_sorted 1668564000 {} New
       = snd (scan (sorting_verdict New 1668564000) ''new'' [Item ex_post] ([], {}))
   \<and> collect_sorting ex_sorted 1668564000 {} New = (ex_records, {VStr ''c1'', VStr ''p1''})
   \<and> (\<exists>post cs. extract_submission_data (Listed ex_post) = Inr (Some post)
        \<and> process_comments ex_post = Inr cs
        \<and> collect_sorting ex_sorted 1668564000 {} New
            = snd (add_comments cs ([] @ [setitem post ''source'' (VStr ''new'')],
                                    insert (VStr (s_id ex_post)) {})))
   \<and> s_created_utc ex_next = Some 1700000000 \<and> (1668564000::int) \<le> 1700000000
   \<and> VStr (s_id ex_next) \<notin> {}
   \<and> (\<exists>post. extract_submission_data (Listed ex_next) = Inr (Some post)
        \<and> setitem post ''source'' (VStr ''hot'')
             \<in> set (fst (snd (scan (sorting_verdict Hot 1668564000) ''hot''
                                  (Item ex_old # Item ex_next # []) ([], {}))))
        \<and> setitem post ''source'' (VStr (source_name Hot None))
             \<in> set (fst (collect_sorting ex_sorted 1668564000 {} Hot))
        \<and> (\<exists>cs. process_comments ex_next = Inr cs
              \<and> scan (sorting_verdict New 1668564000) ''new''
                    (Item ex_next # Item ex_old # [Item ex_post]) ([], {})
                  = (Broke, snd (add_comments cs ([] @ [setitem post ''source'' (VStr ''new'')],
                                                  insert (VStr (s_id ex_next)) {})))))
   \<and> time_filters Hot = None # [] \<and> sr_listing ex_sorted Hot None = Item ex_old # Item ex_next # []
   \<and> map (\<lambda>r. (cell r ''id'', cell r ''source''))
         (fst (collect_sorting ex_sorted 1668564000 {} Hot)) = [(VStr ''p2'', VStr ''hot'')]
   \<and> scan (sorting_verdict Hot 1668564000) ''hot'' (Item ex_old # [Item ex_next]) ([], {})
       = scan (sorting_verdict Hot 1668564000) ''hot'' [Item ex_next] ([], {})"
proof -
  obtain post where post: "extract_submission_data (Listed ex_next) = Inr (Some post)"
    using ex_next_accepted extract_submission_total [of ex_next]
    by (cases "extract_submission_data (Listed ex_next)") auto
  obtain post1 where post1: "extract_submission_data (Listed ex_post) = Inr (Some post1)"
    using ex_post_accepted extract_submission_total [of ex_post]
    by (cases "extract_submission_data (Listed ex_post)") auto
  have old: "s_created_utc ex_old = Some 1000 \<and> (1000::int) < 1668564000"
    by (simp add: ex_old_def)
  have new: "s_created_utc ex_next = Some 1700000000 \<and> (1668564000::int) \<le> 1700000000
      \<and> VStr (s_id ex_next) \<notin> {} \<and> extract_submission_data (Listed ex_next) = Inr (Some post)"
    using post by (simp add: ex_next_def ex_post_def)
  have hot: "Hot \<noteq> New" by simp
  have l: "sr_listing ex_sorted New None = [Item ex_post] @ Item ex_old # [Item ex_next]"
    by (simp add: ex_sorted_def)
  have l1: "s_created_utc ex_post = Some 1700000000 \<and> (1668564000::int) \<le> 1700000000
      \<and> VStr (s_id ex_post) \<notin> {} \<and> extract_submission_data (Listed ex_post) = Inr (Some post1)
      \<and> sr_listing ex_sorted New None = Item ex_post # Item ex_old # [Item ex_next]"
    using post1 by (simp add: ex_post_def ex_sorted_def)
  have l2: "time_filters Hot = None # [] \<and> sr_listing ex_sorted Hot None = Item ex_old # Item ex_next # []"
    by (simp add: time_filters_def ex_sorted_def)
  note t = newest_early_exit [where s = ex_old and created = 1000 and since = 1668564000
      and s' = ex_next and created' = 1700000000 and ids = "{}" and post = post and data = "[]"
      and sr = ex_sorted and pre = "[Item ex_post]"]
  note c1 = t [where tag = "''new''" and rest = "[Item ex_next]" and st = "([], {})",
      THEN conjunct1, THEN mp, OF old]
  note c3 = t [where rest = "[Item ex_next]",
      THEN conjunct2, THEN conjunct2, THEN conjunct1, THEN mp, OF conjI [OF old [THEN conjunct1]
        conjI [OF old [THEN conjunct2] l]]]
  note c4 = t [where m = Hot and tag = "''hot''" and rest = "[Item ex_next]" and st = "([], {})",
      THEN conjunct2, THEN conjunct2, THEN conjunct2, THEN conjunct1, THEN mp,
      OF conjI [OF old [THEN conjunct1] conjI [OF old [THEN conjunct2] hot]]]
  note c6 = t [where tag = "''new''" and rest = "[Item ex_post]",
      THEN conjunct2, THEN conjunct2, THEN conjunct2, THEN conjunct2, THEN conjunct2,
      THEN conjunct1, THEN mp,
      OF conjI [OF old [THEN conjunct1] conjI [OF old [THEN conjunct2] new]]]
  note c7 = t [where m = Hot and tag = "''hot''" and rest = "[]",
      THEN conjunct2, THEN conjunct2, THEN conjunct2, THEN conjunct2, THEN conjunct2,
      THEN conjunct2, THEN conjunct1, THEN mp,
      OF conjI [OF old [THEN conjunct1] conjI [OF old [THEN conjunct2] conjI [OF hot new]]]]
  note c8 = newest_early_exit [where s = ex_old and created = 1000 and since = 1668564000
      and s' = ex_post and created' = 1700000000 and ids = "{}" and post = post1
      and sr = ex_sorted and rest = "[Item ex_next]",
      THEN conjunct2, THEN conjunct2, THEN conjunct2, THEN conjunct2, THEN conjunct2,
      THEN conjunct2, THEN conjunct2, THEN conjunct1, THEN mp,
      OF conjI [OF old [THEN conjunct1] conjI [OF old [THEN conjunct2] l1]]]
  note c9 = t [where m = Hot and tf = None and tfs = "[]" and rest = "[]",
      THEN conjunct2, THEN conjunct2, THEN conjunct2, THEN conjunct2, THEN conjunct2,
      THEN conjunct2, THEN conjunct2, THEN conjunct2, THEN mp,
      OF conjI [OF old [THEN conjunct1] conjI [OF old [THEN conjunct2] conjI [OF hot
        conjI [OF new [THEN conjunct1] conjI [OF new [THEN conjunct2, THEN conjunct1]
          conjI [OF new [THEN conjunct2, THEN conjunct2, THEN conjunct1]
            conjI [OF new [THEN conjunct2, THEN conjunct2, THEN conjunct2] l2]]]]]]]]
  from post c7 c9 c6 have e: "\<exists>post. extract_submission_data (Listed ex_next) = Inr (Some post)
        \<and> setitem post ''source'' (VStr ''hot'')
             \<in> set (fst (snd (scan (sorting_verdict Hot 1668564000) ''hot''
                                  (Item ex_old # Item ex_next # []) ([], {}))))
        \<and> setitem post ''source'' (VStr (source_name Hot None))
             \<in> set (fst (collect_sorting ex_sorted 1668564000 {} Hot))
        \<and> (\<exists>cs. process_comments ex_next = Inr cs
              \<and> scan (sorting_verdict New 1668564000) ''new''
                    (Item ex_next # Item ex_old # [Item ex_post]) ([], {})
                  = (Broke, snd (add_comments cs ([] @ [setitem post ''source'' (VStr ''new'')],
                                                  insert (VStr (s_id ex_next)) {}))))"
    by (intro exI [of _ post] conjI) assumption+
  from c8 obtain cs1 where cs1: "process_comments ex_post = Inr cs1"
    and r1: "collect_sorting ex_sorted 1668564000 {} New
            = snd (add_comments cs1 ([] @ [setitem post1 ''source'' (VStr ''new'')],
                                     insert (VStr (s_id ex_post)) {}))"
    by (elim exE conjE)
  from post1 cs1 r1 have e1: "\<exists>post cs. extract_submission_data (Listed ex_post) = Inr (Some post)
        \<and> process_comments ex_post = Inr cs
        \<and> collect_sorting ex_sorted 1668564000 {} New
            = snd (add_comments cs ([] @ [setitem post ''source'' (VStr ''new'')],
                                    insert (VStr (s_id ex_post)) {}))"
    by (intro exI [of _ post1] exI [of _ cs1] conjI) assumption+
  from old [THEN conjunct1] old [THEN conjunct2] c1 l c3 ex_sorted_new e1
    new [THEN conjunct1] new [THEN conjunct2, THEN conjunct1]
    new [THEN conjunct2, THEN conjunct2, THEN conjunct1] e l2 [THEN conjunct1] l2 [THEN conjunct2]
    ex_sorted_hot c4
  show ?thesis by (intro conjI)
qed

subsection \<open>C6: the processed set\<close>

text \<open>Claim C6. In the processed set a run saves, the columns \<^verbatim>\<open>review\<close> and
  \<^verbatim>\<open>review_datetime\<close> exist and every row has a string in the first, which
  \<^verbatim>\<open>str.lower()\<close> leaves as it is and which holds no character of \<^verbatim>\<open>[A-Z]\<close>,
  and a datetime in the second. \<^verbatim>\<open>transform_data\<close> keeps
  only rows whose text and timestamp are not null, before anything is saved. The
  sanity tests on nulls and on upper case never fail on that set.\<close>

theorem processed_rows_lowercase:
  "(processed_data (main app_name sr now now') = Some p \<longrightarrow>
      ''review'' \<in> set (columns p) \<and> ''review_datetime'' \<in> set (columns p)
      \<and> list_all (\<lambda>r. \<exists>t dt. map_of r ''review'' = Some (VStr t) \<and> lower t = t \<and> \<not> list_ex is_upper t
                          \<and> map_of r ''review_datetime'' = Some (VDatetime dt)) (rows p))
   \<and> (transform_data d app_name h = (Inr t, h') \<longrightarrow>
      list_all (\<lambda>r. \<exists>r0 \<in> set (rows (h ! d)). cell r0 ''complaint'' \<noteq> VNone
                     \<and> cell r0 ''timestamp_dt'' \<noteq> VNone \<and> r = normalized_row app_name r0)
        (rows (h' ! t)))
   \<and> (processed_data (main app_name sr now now') = Some p \<longrightarrow>
      run_sanity_tests p \<noteq> Some (KeyError ''review'')
      \<and> run_sanity_tests p \<noteq> Some (AssertionError ''null review'')
      \<and> run_sanity_tests p \<noteq> Some (KeyError ''review_datetime'')
      \<and> run_sanity_tests p \<noteq> Some (AssertionError ''null review_datetime'')
      \<and> run_sanity_tests p \<noteq> Some (AssertionError ''uppercase reviews''))"
proof -
  have a: "''review'' \<in> set (columns p) \<and> ''review_datetime'' \<in> set (columns p)
      \<and> list_all (\<lambda>r. \<exists>t dt. map_of r ''review'' = Some (VStr t) \<and> lower t = t \<and> \<not> list_ex is_upper t
                          \<and> map_of r ''review_datetime'' = Some (VDatetime dt)) (rows p)"
    if "processed_data (main app_name sr now now') = Some p"
    using that
  proof (rule main_processed)
    fix all_data raw
    assume ok: "list_all record_ok all_data" and pd: "process_dataframe all_data = Inr raw"
      and n: "normalized_frame app_name raw = Inr p"
    have rows_ok: "list_all record_ok (rows raw)"
      using process_dataframe_ok [OF pd ok] .
    have "\<exists>t dt. map_of r ''review'' = Some (VStr t) \<and> lower t = t \<and> \<not> list_ex is_upper t
                          \<and> map_of r ''review_datetime'' = Some (VDatetime dt)"
      if "r \<in> set (rows p)" for r
    proof -
      from that normalize_rows [OF n] obtain r0 where "r0 \<in> set (rows raw)"
        and r: "r = normalized_row app_name r0" by auto
      with rows_ok have "record_ok r0" by (simp add: list_all_iff)
      from normalized_row_ok [OF this, of app_name] r show ?thesis by blast
    qed
    with normalize_columns [OF n] show ?thesis by (simp add: list_all_iff)
  qed
  have b: "list_all (\<lambda>r. \<exists>r0 \<in> set (rows (h ! d)). cell r0 ''complaint'' \<noteq> VNone
                     \<and> cell r0 ''timestamp_dt'' \<noteq> VNone \<and> r = normalized_row app_name r0)
        (rows (h' ! t))"
    if "transform_data d app_name h = (Inr t, h')"
  proof -
    from transform_data_success [OF that] obtain out where d: "d < length h"
      and n: "normalized_frame app_name (h ! d) = Inr out" and t: "t = Suc (length h)"
      and h': "h' = h @ [h ! d, out]" by blast
    have "h' ! t = out" by (simp add: t h' nth_append)
    with normalize_rows [OF n] show ?thesis by (auto simp: list_all_iff kept_def)
  qed
  have c: "run_sanity_tests p \<noteq> Some (KeyError ''review'')
      \<and> run_sanity_tests p \<noteq> Some (AssertionError ''null review'')
      \<and> run_sanity_tests p \<noteq> Some (KeyError ''review_datetime'')
      \<and> run_sanity_tests p \<noteq> Some (AssertionError ''null review_datetime'')
      \<and> run_sanity_tests p \<noteq> Some (AssertionError ''uppercase reviews'')"
    if "processed_data (main app_name sr now now') = Some p"
  proof -
    from a [OF that] have c1: "''review'' \<in> set (columns p)"
      and c2: "''review_datetime'' \<in> set (columns p)"
      and r: "list_all (\<lambda>r. \<exists>t dt. map_of r ''review'' = Some (VStr t) \<and> lower t = t \<and> \<not> list_ex is_upper t
                          \<and> map_of r ''review_datetime'' = Some (VDatetime dt)) (rows p)"
      by simp_all
    from r have n1: "\<not> list_ex (\<lambda>r. cell r ''review'' = VNone) (rows p)"
      and n2: "\<not> list_ex (\<lambda>r. cell r ''review_datetime'' = VNone) (rows p)"
      and n3: "\<not> list_ex (\<lambda>r. uppercase_review (cell r ''review'')) (rows p)"
      by (auto simp: list_all_iff list_ex_iff cell_def)
    show ?thesis
      by (simp add: run_sanity_tests_def c1 c2 n1 n2 n3)
  qed
  from a b c show ?thesis by blast
qed

theorem processed_rows_lowercase_witness:
  "(\<exists>p. processed_data (main ''DoorDash'' ex_feed 1700100000 1700100001) = Some p
      \<and> ''review'' \<in> set (columns p) \<and> ''review_datetime'' \<in> set (columns p)
      \<and> list_all (\<lambda>r. \<exists>t dt. map_of r ''review'' = Some (VStr t) \<and> lower t = t \<and> \<not> list_ex is_upper t
                          \<and> map_of r ''review_datetime'' = Some (VDatetime dt)) (rows p)
      \<and> map (\<lambda>r. cell r ''review'') (rows p)
           = [VStr ''same here'', VStr ''late order driver never showed'']
      \<and> run_sanity_tests p \<noteq> Some (KeyError ''review'')
      \<and> run_sanity_tests p \<noteq> Some (AssertionError ''null review'')
      \<and> run_sanity_tests p \<noteq> Some (KeyError ''review_datetime'')
      \<and> run_sanity_tests p \<noteq> Some (AssertionError ''null review_datetime'')
      \<and> run_sanity_tests p \<noteq> Some (AssertionError ''uppercase reviews''))
   \<and> (\<exists>t h'. transform_data 0 ''DoorDash'' [DataFrame ex_records] = (Inr t, h')
      \<and> rows (h' ! t) \<noteq> []
      \<and> list_all (\<lambda>r. \<exists>r0 \<in> set (rows ([DataFrame ex_records] ! 0)). cell r0 ''complaint'' \<noteq> VNone
                     \<and> cell r0 ''timestamp_dt'' \<noteq> VNone \<and> r = normalized_row ''DoorDash'' r0)
        (rows (h' ! t)))"
proof -
  obtain p where p: "processed_data (main ''DoorDash'' ex_feed 1700100000 1700100001) = Some p"
    using ex_saved(2) by (auto simp: ex_main)
  have "map (\<lambda>r. cell r ''review'')
          (case processed_data (finish ''DoorDash'' ex_records) of Some p \<Rightarrow> rows p | None \<Rightarrow> [])
           = [VStr ''same here'', VStr ''late order driver never showed'']"
    by code_simp
  with p have o: "map (\<lambda>r. cell r ''review'') (rows p)
           = [VStr ''same here'', VStr ''late order driver never showed'']"
    by (simp add: ex_main)
  obtain res where res: "normalized_frame ''DoorDash'' (DataFrame ex_records) = Inr res"
    using ex_normalize by (cases "normalized_frame ''DoorDash'' (DataFrame ex_records)") auto
  have "rows (case normalized_frame ''DoorDash'' (DataFrame ex_records) of Inr f \<Rightarrow> f
               | Inl e \<Rightarrow> DataFrame []) \<noteq> []"
    by code_simp
  with res have ne: "rows res \<noteq> []" by simp
  have r: "transform_data 0 ''DoorDash'' [DataFrame ex_records]
      = (Inr (Suc (length [DataFrame ex_records])),
         [DataFrame ex_records] @ [[DataFrame ex_records] ! 0, res])"
    by (rule transform_data_Inr) (simp_all add: res)
  have g: "([DataFrame ex_records] @ [[DataFrame ex_records] ! 0, res])
             ! Suc (length [DataFrame ex_records]) = res"
    by simp
  note t = processed_rows_lowercase [where app_name = "''DoorDash''" and sr = ex_feed
      and now = 1700100000 and now' = 1700100001 and p = p and d = 0
      and h = "[DataFrame ex_records]" and t = "Suc (length [DataFrame ex_records])"
      and h' = "[DataFrame ex_records] @ [[DataFrame ex_records] ! 0, res]"]
  note 1 = t [THEN conjunct1, rule_format, OF p]
  note 2 = t [THEN conjunct2, THEN conjunct1, rule_format, OF r]
  note 3 = t [THEN conjunct2, THEN conjunct2, rule_format, OF p]
  from p 1 3 o have a: "\<exists>p. processed_data (main ''DoorDash'' ex_feed 1700100000 1700100001) = Some p
      \<and> ''review'' \<in> set (columns p) \<and> ''review_datetime'' \<in> set (columns p)
      \<and> list_all (\<lambda>r. \<exists>t dt. map_of r ''review'' = Some (VStr t) \<and> lower t = t \<and> \<not> list_ex is_upper t
                          \<and> map_of r ''review_datetime'' = Some (VDatetime dt)) (rows p)
      \<and> map (\<lambda>r. cell r ''review'') (rows p)
           = [VStr ''same here'', VStr ''late order driver never showed'']
      \<and> run_sanity_tests p \<noteq> Some (KeyError ''review'')
      \<and> run_sanity_tests p \<noteq> Some (AssertionError ''null review'')
      \<and> run_sanity_tests p \<noteq> Some (KeyError ''review_datetime'')
      \<and> run_sanity_tests p \<noteq> Some (AssertionError ''null review_datetime'')
      \<and> run_sanity_tests p \<noteq> Some (AssertionError ''uppercase reviews'')"
    by (intro exI [of _ p]) simp
  from ne have ne': "rows (([DataFrame ex_records] @ [[DataFrame ex_records] ! 0, res])
             ! Suc (length [DataFrame ex_records])) \<noteq> []"
    unfolding g .
  from r ne' 2 have b: "\<exists>t h'. transform_data 0 ''DoorDash'' [DataFrame ex_records] = (Inr t, h')
      \<and> rows (h' ! t) \<noteq> []
      \<and> list_all (\<lambda>r. \<exists>r0 \<in> set (rows ([DataFrame ex_records] ! 0)). cell r0 ''complaint'' \<noteq> VNone
                     \<and> cell r0 ''timestamp_dt'' \<noteq> VNone \<and> r = normalized_row ''DoorDash'' r0)
        (rows (h' ! t))"
    by (intro exI [of _ "Suc (length [DataFrame ex_records])"]
          exI [of _ "[DataFrame ex_records] @ [[DataFrame ex_records] ! 0, res]"] conjI)
       assumption+
  from a b show ?thesis by (intro conjI)
qed

subsection \<open>C7: the order of the snapshots\<close>

text \<open>Claim C7. The rows of the frame \<^verbatim>\<open>process_dataframe\<close> returns are sorted by
  \<^verbatim>\<open>timestamp_dt\<close>, later first; in the raw snapshot of a run every row has a
  datetime there, and they descend. \<^verbatim>\<open>transform_data\<close> filters the rows and rewrites
  each one: the rows of its frame are the images, in order, of a subsequence of
  the rows it was given, and so are those of the processed set of a run with
  respect to the raw snapshot.\<close>

theorem snapshot_order:
  "(process_dataframe all_data = Inr df \<longrightarrow>
      sorted_wrt (\<lambda>r r'. before (cell r ''timestamp_dt'') (cell r' ''timestamp_dt'')) (rows df))
   \<and> (raw_data (main app_name sr now now') = Some raw \<longrightarrow>
      sorted_wrt (\<lambda>r r'. \<exists>x y. cell r ''timestamp_dt'' = VDatetime x
                        \<and> cell r' ''timestamp_dt'' = VDatetime y \<and> y \<le> x) (rows raw))
   \<and> (transform_data d app_name h = (Inr t, h') \<longrightarrow>
      d < length h \<and> t < length h'
      \<and> rows (h' ! t) = map (normalized_row app_name) (filter kept (rows (h ! d)))
      \<and> subseq (filter kept (rows (h ! d))) (rows (h ! d)))
   \<and> (processed_data (main app_name sr now now') = Some p \<longrightarrow>
      (\<exists>raw. raw_data (main app_name sr now now') = Some raw
         \<and> rows p = map (normalized_row app_name) (filter kept (rows raw))
         \<and> subseq (filter kept (rows raw)) (rows raw)))"
proof -
  have a: "process_dataframe all_data = Inr df \<longrightarrow>
      sorted_wrt (\<lambda>r r'. before (cell r ''timestamp_dt'') (cell r' ''timestamp_dt'')) (rows df)"
    using process_dataframe_sorted by blast
  have b: "sorted_wrt (\<lambda>r r'. \<exists>x y. cell r ''timestamp_dt'' = VDatetime x
                        \<and> cell r' ''timestamp_dt'' = VDatetime y \<and> y \<le> x) (rows raw)"
    if "raw_data (main app_name sr now now') = Some raw"
    using that
  proof (rule main_raw)
    fix all_data
    assume ok: "list_all record_ok all_data" and pd: "process_dataframe all_data = Inr raw"
    have rows_ok: "list_all record_ok (rows raw)"
      using process_dataframe_ok [OF pd ok] .
    show ?thesis
      using process_dataframe_sorted [OF pd]
    proof (rule sorted_wrt_mono_rel [rotated])
      fix r r'
      assume "r \<in> set (rows raw)" "r' \<in> set (rows raw)"
        "before (cell r ''timestamp_dt'') (cell r' ''timestamp_dt'')"
      with rows_ok show "\<exists>x y. cell r ''timestamp_dt'' = VDatetime x
                        \<and> cell r' ''timestamp_dt'' = VDatetime y \<and> y \<le> x"
        by (intro before_datetimes) (auto simp: list_all_iff)
    qed
  qed
  have c: "d < length h \<and> t < length h'
      \<and> rows (h' ! t) = map (normalized_row app_name) (filter kept (rows (h ! d)))
      \<and> subseq (filter kept (rows (h ! d))) (rows (h ! d))"
    if "transform_data d app_name h = (Inr t, h')"
  proof -
    from transform_data_success [OF that] obtain out where d: "d < length h"
      and n: "normalized_frame app_name (h ! d) = Inr out" and t: "t = Suc (length h)"
      and h': "h' = h @ [h ! d, out]" by blast
    have "h' ! t = out" by (simp add: t h' nth_append)
    with normalize_rows [OF n] d t h' subseq_kept show ?thesis by simp
  qed
  have e: "\<exists>raw. raw_data (main app_name sr now now') = Some raw
         \<and> rows p = map (normalized_row app_name) (filter kept (rows raw))
         \<and> subseq (filter kept (rows raw)) (rows raw)"
    if "processed_data (main app_name sr now now') = Some p"
    using that
  proof (rule main_processed)
    fix all_data raw
    assume r: "raw_data (main app_name sr now now') = Some raw"
      and n: "normalized_frame app_name raw = Inr p"
    with normalize_rows [OF n] subseq_kept [of "rows raw"] show ?thesis by blast
  qed
  from a b c e show ?thesis by blast
qed

theorem snapshot_order_witness:
  "(\<exists>raw p. raw_data (main ''DoorDash'' ex_feed 1700100000 1700100001) = Some raw
      \<and> processed_data (main ''DoorDash'' ex_feed 1700100000 1700100001) = Some p
      \<and> sorted_wrt (\<lambda>r r'. \<exists>x y. cell r ''timestamp_dt'' = VDatetime x
                        \<and> cell r' ''timestamp_dt'' = VDatetime y \<and> y \<le> x) (rows raw)
      \<and> rows p = map (normalized_row ''DoorDash'') (filter kept (rows raw))
      \<and> subseq (filter kept (rows raw)) (rows raw))
   \<and> (\<exists>df. process_dataframe ex_records = Inr df
      \<and> sorted_wrt (\<lambda>r r'. before (cell r ''timestamp_dt'') (cell r' ''timestamp_dt'')) (rows df)
      \<and> map (\<lambda>r. cell r ''id'') (rows df) = [VStr ''c1'', VStr ''p1''])
   \<and> (\<exists>t h'. transform_data 0 ''DoorDash'' [DataFrame ex_records] = (Inr t, h')
      \<and> t < length h'
      \<and> rows (h' ! t)
           = map (normalized_row ''DoorDash'') (filter kept (rows ([DataFrame ex_records] ! 0))))"
proof -
  obtain raw where raw: "raw_data (main ''DoorDash'' ex_feed 1700100000 1700100001) = Some raw"
    using ex_saved(1) by (auto simp: ex_main)
  obtain p where p: "processed_data (main ''DoorDash'' ex_feed 1700100000 1700100001) = Some p"
    using ex_saved(2) by (auto simp: ex_main)
  obtain df where df: "process_dataframe ex_records = Inr df"
    using ex_frame1 by (cases "process_dataframe ex_records") auto
  have "map (\<lambda>r. cell r ''id'')
        (case process_dataframe ex_records of Inr df \<Rightarrow> rows df | Inl e \<Rightarrow> [])
       = [VStr ''c1'', VStr ''p1'']"
    by code_simp
  with df have o: "map (\<lambda>r. cell r ''id'') (rows df) = [VStr ''c1'', VStr ''p1'']" by simp
  obtain res where res: "normalized_frame ''DoorDash'' (DataFrame ex_records) = Inr res"
    using ex_normalize by (cases "normalized_frame ''DoorDash'' (DataFrame ex_records)") auto
  have r: "transform_data 0 ''DoorDash'' [DataFrame ex_records]
      = (Inr (Suc (length [DataFrame ex_records])),
         [DataFrame ex_records] @ [[DataFrame ex_records] ! 0, res])"
    by (rule transform_data_Inr) (simp_all add: res)
  note t = snapshot_order [where app_name = "''DoorDash''" and sr = ex_feed
      and now = 1700100000 and now' = 1700100001 and raw = raw and p = p
      and all_data = ex_records and df = df and d = 0
      and h = "[DataFrame ex_records]" and t = "Suc (length [DataFrame ex_records])"
      and h' = "[DataFrame ex_records] @ [[DataFrame ex_records] ! 0, res]"]
  note 1 = t [THEN conjunct1, rule_format, OF df]
  note 2 = t [THEN conjunct2, THEN conjunct1, rule_format, OF raw]
  note 3 = t [THEN conjunct2, THEN conjunct2, THEN conjunct1, rule_format, OF r]
  note 4 = t [THEN conjunct2, THEN conjunct2, THEN conjunct2, rule_format, OF p]
  from raw p 2 4 have a: "\<exists>raw p. raw_data (main ''DoorDash'' ex_feed 1700100000 1700100001) = Some raw
      \<and> processed_data (main ''DoorDash'' ex_feed 1700100000 1700100001) = Some p
      \<and> sorted_wrt (\<lambda>r r'. \<exists>x y. cell r ''timestamp_dt'' = VDatetime x
                        \<and> cell r' ''timestamp_dt'' = VDatetime y \<and> y \<le> x) (rows raw)
      \<and> rows p = map (normalized_row ''DoorDash'') (filter kept (rows raw))
      \<and> subseq (filter kept (rows raw)) (rows raw)"
    by (intro exI [of _ raw] exI [of _ p]) simp
  from df 1 o have b: "\<exists>df. process_dataframe ex_records = Inr df
      \<and> sorted_wrt (\<lambda>r r'. before (cell r ''timestamp_dt'') (cell r' ''timestamp_dt'')) (rows df)
      \<and> map (\<lambda>r. cell r ''id'') (rows df) = [VStr ''c1'', VStr ''p1'']"
    by (intro exI [of _ df]) simp
  from r 3 have c: "\<exists>t h'. transform_data 0 ''DoorDash'' [DataFrame ex_records] = (Inr t, h')
      \<and> t < length h'
      \<and> rows (h' ! t)
           = map (normalized_row ''DoorDash'') (filter kept (rows ([DataFrame ex_records] ! 0)))"
    by (intro exI [of _ "Suc (length [DataFrame ex_records])"]
          exI [of _ "[DataFrame ex_records] @ [[DataFrame ex_records] ! 0, res]"] conjI)
       (simp_all only: simp_thms)
  from a b c show ?thesis by (intro conjI)
qed

subsection \<open>C8: running the normalisation again\<close>

text \<open>Claim C8. \<^verbatim>\<open>transform_data\<close> leaves the frame it is given, and every frame
  that existed before the call, as they were. Run a second time on the same
  reference it ends as the first run did: with the same exception, or with a frame
  equal to the frame the first run returned, which the second run has not
  touched.\<close>

theorem normalization_rerun:
  "transform_data d app_name h = (r1, h1) \<and> transform_data d app_name h1 = (r2, h2) \<longrightarrow>
     prefix h h1 \<and> (d < length h \<longrightarrow> h1 ! d = h ! d)
     \<and> (case r1 of
          Inl e \<Rightarrow> r2 = Inl e
        | Inr t1 \<Rightarrow>
            (\<exists>t2. r2 = Inr t2 \<and> t1 < length h1 \<and> t2 < length h2
               \<and> h2 ! t2 = h1 ! t1 \<and> h2 ! t1 = h1 ! t1))"
proof
  assume runs: "transform_data d app_name h = (r1, h1) \<and> transform_data d app_name h1 = (r2, h2)"
  have p: "prefix h h1" using transform_data_grows [of h d app_name] runs by simp
  then obtain ext where ext: "h1 = h @ ext" by (auto simp: prefix_def)
  have same: "h1 ! d = h ! d" if "d < length h" using that by (simp add: ext nth_append)
  have out: "case r1 of
          Inl e \<Rightarrow> r2 = Inl e
        | Inr t1 \<Rightarrow>
            (\<exists>t2. r2 = Inr t2 \<and> t1 < length h1 \<and> t2 < length h2
               \<and> h2 ! t2 = h1 ! t1 \<and> h2 ! t1 = h1 ! t1)"
  proof (cases "d < length h")
    case False
    then have "transform_data d app_name h = (Inl Exception, h)" by (rule transform_data_range)
    with runs show ?thesis by auto
  next
    case True
    then have d1: "d < length h1" by (simp add: ext)
    show ?thesis
    proof (cases "normalized_frame app_name (h ! d)")
      case (Inl e)
      from transform_data_Inl [OF True Inl] runs have "r1 = Inl e" by simp
      moreover from transform_data_Inl [OF d1, of app_name e] Inl same [OF True] runs
      have "r2 = Inl e" by simp
      ultimately show ?thesis by simp
    next
      case (Inr res)
      from transform_data_Inr [OF True Inr] runs
      have 1: "r1 = Inr (Suc (length h))" "h1 = h @ [h ! d, res]" by simp_all
      from transform_data_Inr [OF d1, of app_name res] Inr same [OF True] runs
      have 2: "r2 = Inr (Suc (length h1))" "h2 = h1 @ [h1 ! d, res]" by simp_all
      show ?thesis by (simp add: 1 2 nth_append)
    qed
  qed
  from p same out show "prefix h h1 \<and> (d < length h \<longrightarrow> h1 ! d = h ! d)
     \<and> (case r1 of
          Inl e \<Rightarrow> r2 = Inl e
        | Inr t1 \<Rightarrow>
            (\<exists>t2. r2 = Inr t2 \<and> t1 < length h1 \<and> t2 < length h2
               \<and> h2 ! t2 = h1 ! t1 \<and> h2 ! t1 = h1 ! t1))"
    by blast
qed

theorem normalization_rerun_witness:
  "\<exists>t1 h1 t2 h2.
     transform_data 0 ''DoorDash'' [DataFrame ex_records] = (Inr t1, h1)
     \<and> transform_data 0 ''DoorDash'' h1 = (Inr t2, h2)
     \<and> h1 ! 0 = DataFrame ex_records
     \<and> t1 < length h1 \<and> t2 < length h2 \<and> h2 ! t2 = h1 ! t1 \<and> h2 ! t1 = h1 ! t1"
proof -
  obtain res where res: "normalized_frame ''DoorDash'' (DataFrame ex_records) = Inr res"
    using ex_normalize by (cases "normalized_frame ''DoorDash'' (DataFrame ex_records)") auto
  have 1: "transform_data 0 ''DoorDash'' [DataFrame ex_records]
      = (Inr (Suc (length [DataFrame ex_records])),
         [DataFrame ex_records] @ [[DataFrame ex_records] ! 0, res])"
    by (rule transform_data_Inr) (simp_all add: res)
  obtain r2 h2 where 2: "transform_data 0 ''DoorDash''
      ([DataFrame ex_records] @ [[DataFrame ex_records] ! 0, res]) = (r2, h2)"
    by fastforce
  from normalization_rerun [of 0 "''DoorDash''" "[DataFrame ex_records]"
      "Inr (Suc (length [DataFrame ex_records]))"
      "[DataFrame ex_records] @ [[DataFrame ex_records] ! 0, res]" r2 h2] 1 2
  show ?thesis by auto
qed

subsection \<open>C9: the reply harvester\<close>

text \<open>Claim C9. \<^verbatim>\<open>process_comments\<close> returns a list for every submission and
  raises nothing. When the expansion of the comment forest raises, the list holds
  the records of the comments already loaded, each that the extractor accepts, and
  is empty when none is loaded. This is so when no loaded comment has an id whose
  read raises another exception than \<^verbatim>\<open>AttributeError\<close>; in general the list holds
  the records of the loaded comments before the first on which the extractor itself
  raises, where the enclosing \<^verbatim>\<open>try\<close> ends the loop and the list built so far is
  returned. The strategy that called it then goes on with the rest of its
  listing.\<close>

theorem harvester_never_raises:
  "(\<exists>cs. process_comments s = Inr cs)
   \<and> (s_comments s = CommentForest f \<and> f_expand f = None \<longrightarrow>
        process_comments s =
          Inr (case f_loaded f of None \<Rightarrow> [] | Some loaded \<Rightarrow> comment_loop s loaded []))
   \<and> ((\<forall>c \<in> set loaded. c_id c \<noteq> AttrRaises) \<longrightarrow>
        comment_loop s loaded [] =
          List.map_filter
            (\<lambda>c. case extract_comment_data c s of
                   Inr (Some d) \<Rightarrow> Some (setitem d ''source'' (VStr (''comment_in_'' @ s_id s)))
                 | _ \<Rightarrow> None) loaded)
   \<and> comment_loop s loaded [] =
        List.map_filter
          (\<lambda>c. case extract_comment_data c s of
                 Inr (Some d) \<Rightarrow> Some (setitem d ''source'' (VStr (''comment_in_'' @ s_id s)))
               | _ \<Rightarrow> None)
          (takeWhile (\<lambda>c. \<not> isl (extract_comment_data c s)) loaded)
   \<and> (s_created_utc s = Some created \<and> v created = Take \<and> VStr (s_id s) \<notin> ids
        \<and> extract_submission_data (Listed s) = Inr (Some post) \<longrightarrow>
        (\<exists>cs. process_comments s = Inr cs
           \<and> scan v tag (Item s # rest) (data, ids) =
               scan v tag rest
                 (snd (add_comments cs (data @ [setitem post ''source'' (VStr tag)],
                                        insert (VStr (s_id s)) ids)))))"
proof -
  have a: "s_comments s = CommentForest f \<and> f_expand f = None \<longrightarrow>
        process_comments s =
          Inr (case f_loaded f of None \<Rightarrow> [] | Some loaded \<Rightarrow> comment_loop s loaded [])"
    by (simp add: process_comments_def split: option.split)
  have b: "s_created_utc s = Some created \<and> v created = Take \<and> VStr (s_id s) \<notin> ids
        \<and> extract_submission_data (Listed s) = Inr (Some post) \<longrightarrow>
        (\<exists>cs. process_comments s = Inr cs
           \<and> scan v tag (Item s # rest) (data, ids) =
               scan v tag rest
                 (snd (add_comments cs (data @ [setitem post ''source'' (VStr tag)],
                                        insert (VStr (s_id s)) ids))))"
    using process_comments_total [of s] scan_accept [of s created v ids post _ tag rest data]
    by blast
  have c: "(\<forall>c \<in> set loaded. c_id c \<noteq> AttrRaises) \<longrightarrow>
        comment_loop s loaded [] =
          List.map_filter
            (\<lambda>c. case extract_comment_data c s of
                   Inr (Some d) \<Rightarrow> Some (setitem d ''source'' (VStr (''comment_in_'' @ s_id s)))
                 | _ \<Rightarrow> None) loaded"
  proof
    assume h: "\<forall>c \<in> set loaded. c_id c \<noteq> AttrRaises"
    have "\<not> isl (extract_comment_data c s)" if "c \<in> set loaded" for c
      using extract_comment_total [of c s] h that by auto
    then have "takeWhile (\<lambda>c. \<not> isl (extract_comment_data c s)) loaded = loaded"
      by (simp add: takeWhile_eq_all_conv)
    with comment_loop_eq [of s loaded "[]"]
    show "comment_loop s loaded [] =
          List.map_filter
            (\<lambda>c. case extract_comment_data c s of
                   Inr (Some d) \<Rightarrow> Some (setitem d ''source'' (VStr (''comment_in_'' @ s_id s)))
                 | _ \<Rightarrow> None) loaded"
      by simp
  qed
  from process_comments_total [of s] a b c comment_loop_eq [of s loaded "[]"]
  show ?thesis by simp
qed

theorem harvester_never_raises_witness:
  "process_comments ex_post = Inr (comment_loop ex_post [ex_reply] [])
   \<and> c_id ex_reply \<noteq> AttrRaises
   \<and> map (\<lambda>r. cell r ''id'') (comment_loop ex_post [ex_reply] []) = [VStr ''c1'']
   \<and> comment_loop ex_post [ex_reply] [] =
        List.map_filter
          (\<lambda>c. case extract_comment_data c ex_post of
                 Inr (Some d) \<Rightarrow> Some (setitem d ''source'' (VStr (''comment_in_'' @ s_id ex_post)))
               | _ \<Rightarrow> None) [ex_reply]
   \<and> comment_loop ex_post [ex_reply\<lparr>c_id := AttrRaises, c_score := None\<rparr>, ex_reply] [] = []
   \<and> (\<exists>post cs. extract_submission_data (Listed ex_post) = Inr (Some post)
        \<and> process_comments ex_post = Inr cs
        \<and> scan (sorting_verdict New 1668564000) ''new'' [Item ex_post, Failure] ([], {}) =
            scan (sorting_verdict New 1668564000) ''new'' [Failure]
              (snd (add_comments cs ([] @ [setitem post ''source'' (VStr ''new'')],
                                     insert (VStr (s_id ex_post)) {}))))"
proof -
  obtain post where post: "extract_submission_data (Listed ex_post) = Inr (Some post)"
    using ex_post_accepted extract_submission_total [of ex_post]
    by (cases "extract_submission_data (Listed ex_post)") auto
  have c: "s_comments ex_post = CommentForest \<lparr>f_expand = None, f_loaded = Some [ex_reply]\<rparr>"
    by (simp add: ex_post_def)
  have v: "sorting_verdict New 1668564000 1700000000 = Take"
    by (simp add: sorting_verdict_def)
  have i: "c_id ex_reply \<noteq> AttrRaises" by (simp add: ex_reply_def)
  then have all: "\<forall>c \<in> set [ex_reply]. c_id c \<noteq> AttrRaises" by simp
  note t = harvester_never_raises [where s = ex_post
      and f = "\<lparr>f_expand = None, f_loaded = Some [ex_reply]\<rparr>" and created = 1700000000
      and v = "sorting_verdict New 1668564000" and ids = "{}" and post = post
      and tag = "''new''" and rest = "[Failure]" and data = "[]" and loaded = "[ex_reply]"]
  from t c have 1: "process_comments ex_post = Inr (comment_loop ex_post [ex_reply] [])"
    by simp
  note 3 = t [THEN conjunct2, THEN conjunct2, THEN conjunct1, THEN mp, OF all]
  from t v post ex_post_created have 2: "\<exists>cs. process_comments ex_post = Inr cs
        \<and> scan (sorting_verdict New 1668564000) ''new'' [Item ex_post, Failure] ([], {}) =
            scan (sorting_verdict New 1668564000) ''new'' [Failure]
              (snd (add_comments cs ([] @ [setitem post ''source'' (VStr ''new'')],
                                     insert (VStr (s_id ex_post)) {})))"
    by simp
  from 2 post have 4: "\<exists>post cs. extract_submission_data (Listed ex_post) = Inr (Some post)
        \<and> process_comments ex_post = Inr cs
        \<and> scan (sorting_verdict New 1668564000) ''new'' [Item ex_post, Failure] ([], {}) =
            scan (sorting_verdict New 1668564000) ''new'' [Failure]
              (snd (add_comments cs ([] @ [setitem post ''source'' (VStr ''new'')],
                                     insert (VStr (s_id ex_post)) {})))"
    by blast
  from 1 i ex_raising_reply(2) 3 ex_raising_reply(1) 4 show ?thesis by (intro conjI)
qed

subsection \<open>C10: the extractors return\<close>

text \<open>Claim C10 says that every internal failure, an author lookup error included,
  is mapped to \<^verbatim>\<open>None\<close>. At a submission, and at a comment, whose author lookup
  raises, the extractor returns a record: the inner \<^verbatim>\<open>try\<close> passes over the
  exception and leaves the name \<^verbatim>\<open>[deleted]\<close>.\<close>

theorem author_error_counterexample:
  "extract_submission_data (Listed (ex_post\<lparr>s_author := AuthorRaises\<rparr>)) \<noteq> Inr None
   \<and> extract_comment_data (ex_reply\<lparr>c_author := AuthorRaises\<rparr>) ex_post \<noteq> Inr None"
  by code_simp

text \<open>Claim C10, amended. Each extractor returns a record or \<^verbatim>\<open>None\<close> and raises
  nothing, when the read of the id in the log line of its handler does not raise:
  for a submission, when its id can be read; for a comment, when reading its id
  raises nothing but \<^verbatim>\<open>AttributeError\<close>. Then an exception in the body of the
  \<^verbatim>\<open>try\<close> (an attribute that cannot be read, a timestamp that
  \<^verbatim>\<open>datetime.fromtimestamp\<close> refuses) gives \<^verbatim>\<open>None\<close>, the value of a rejection. An
  author lookup that raises gives what a missing author gives: the record with the
  name \<^verbatim>\<open>[deleted]\<close>.\<close>

theorem extractors_total:
  "(object_id obj \<noteq> None \<longrightarrow> (\<exists>r. extract_submission_data obj = Inr r))
   \<and> (c_id c \<noteq> AttrRaises \<longrightarrow> (\<exists>r. extract_comment_data c p = Inr r))
   \<and> (object_id obj \<noteq> None \<and> submission_try obj = None \<longrightarrow> extract_submission_data obj = Inr None)
   \<and> (c_id c \<noteq> AttrRaises \<and> comment_try c p = None \<longrightarrow> extract_comment_data c p = Inr None)
   \<and> (s_created_utc s = None \<or> s_title s = None \<or> s_is_self s = None \<or> s_score s = None
        \<or> (\<exists>ts. s_created_utc s = Some ts \<and> fromtimestamp ts = None)
        \<longrightarrow> extract_submission_data (Listed s) = Inr None)
   \<and> (c_id c \<noteq> AttrRaises
        \<and> (c_created_utc c = None \<or> c_id c = NoAttr \<or> c_score c = None \<or> s_title p = None
             \<or> (\<exists>ts. c_created_utc c = Some ts \<and> fromtimestamp ts = None))
        \<longrightarrow> extract_comment_data c p = Inr None)
   \<and> extract_submission_data (Listed (s\<lparr>s_author := AuthorRaises\<rparr>))
       = extract_submission_data (Listed (s\<lparr>s_author := AuthorNone\<rparr>))
   \<and> extract_comment_data (c\<lparr>c_author := AuthorRaises\<rparr>) p
       = extract_comment_data (c\<lparr>c_author := AuthorNone\<rparr>) p
   \<and> (extract_submission_data (Listed s) = Inr (Some d) \<longrightarrow>
        cell d ''username'' = VStr (author_name (s_author s)))"
proof -
  have t1: "object_id obj \<noteq> None \<longrightarrow> (\<exists>r. extract_submission_data obj = Inr r)"
    by (auto simp: extract_submission_data_def split: option.splits)
  have t2: "c_id c \<noteq> AttrRaises \<longrightarrow> (\<exists>r. extract_comment_data c p = Inr r)"
    using extract_comment_total by blast
  have a: "object_id obj \<noteq> None \<and> submission_try obj = None \<longrightarrow>
      extract_submission_data obj = Inr None"
    by (auto simp: extract_submission_data_def)
  have b: "c_id c \<noteq> AttrRaises \<and> comment_try c p = None \<longrightarrow> extract_comment_data c p = Inr None"
    by (cases "c_id c") (simp_all add: extract_comment_data_def)
  have e: "s_created_utc s = None \<or> s_title s = None \<or> s_is_self s = None \<or> s_score s = None
        \<or> (\<exists>ts. s_created_utc s = Some ts \<and> fromtimestamp ts = None)
        \<longrightarrow> extract_submission_data (Listed s) = Inr None"
    by (auto simp: extract_submission_data_def submission_try_def Let_def
        split: option.splits bind_splits)
  have f: "c_id c \<noteq> AttrRaises
        \<and> (c_created_utc c = None \<or> c_id c = NoAttr \<or> c_score c = None \<or> s_title p = None
             \<or> (\<exists>ts. c_created_utc c = Some ts \<and> fromtimestamp ts = None))
        \<longrightarrow> extract_comment_data c p = Inr None"
    by (cases "c_id c")
      (auto simp: extract_comment_data_def comment_try_def Let_def
        split: option.splits bind_splits)
  have g: "extract_submission_data (Listed (s\<lparr>s_author := AuthorRaises\<rparr>))
       = extract_submission_data (Listed (s\<lparr>s_author := AuthorNone\<rparr>))"
  proof -
    have "submission_try (Listed (s\<lparr>s_author := AuthorRaises\<rparr>))
        = submission_try (Listed (s\<lparr>s_author := AuthorNone\<rparr>))"
      by (simp add: submission_try_def Let_def cong: if_cong)
    then show ?thesis by (simp add: extract_submission_data_def split: option.split)
  qed
  have h: "extract_comment_data (c\<lparr>c_author := AuthorRaises\<rparr>) p
       = extract_comment_data (c\<lparr>c_author := AuthorNone\<rparr>) p"
  proof -
    have "comment_try (c\<lparr>c_author := AuthorRaises\<rparr>) p
        = comment_try (c\<lparr>c_author := AuthorNone\<rparr>) p"
      by (simp add: comment_try_def Let_def cong: if_cong option.case_cong)
    then show ?thesis by (simp add: extract_comment_data_def split: option.split)
  qed
  have i: "extract_submission_data (Listed s) = Inr (Some d) \<longrightarrow>
        cell d ''username'' = VStr (author_name (s_author s))"
    by (auto simp: extract_submission_data_def submission_try_def Let_def cell_def
        split: option.splits bind_splits if_splits)
  from t1 t2 a b e f g h i show ?thesis by (intro conjI)
qed

theorem extractors_total_witness:
  "object_id (Listed ex_post) \<noteq> None
   \<and> (\<exists>r. extract_submission_data (Listed ex_post) = Inr r)
   \<and> c_id ex_reply \<noteq> AttrRaises
   \<and> (\<exists>r. extract_comment_data ex_reply ex_post = Inr r)
   \<and> submission_try (Listed (ex_post\<lparr>s_created_utc := None\<rparr>)) = None
   \<and> extract_submission_data (Listed (ex_post\<lparr>s_created_utc := None\<rparr>)) = Inr None
   \<and> fromtimestamp 253402300800 = None
   \<and> extract_submission_data (Listed (ex_post\<lparr>s_created_utc := Some 253402300800\<rparr>)) = Inr None
   \<and> c_id (ex_reply\<lparr>c_id := NoAttr\<rparr>) \<noteq> AttrRaises
   \<and> comment_try (ex_reply\<lparr>c_id := NoAttr\<rparr>) ex_post = None
   \<and> extract_comment_data (ex_reply\<lparr>c_id := NoAttr\<rparr>) ex_post = Inr None
   \<and> extract_comment_data (ex_reply\<lparr>c_created_utc := None\<rparr>) ex_post = Inr None
   \<and> extract_submission_data (Listed (ex_post\<lparr>s_author := AuthorRaises\<rparr>))
       = extract_submission_data (Listed (ex_post\<lparr>s_author := AuthorNone\<rparr>))
   \<and> (\<exists>d. extract_submission_data (Listed (ex_post\<lparr>s_author := AuthorRaises\<rparr>)) = Inr (Some d)
        \<and> cell d ''username'' = VStr ''[deleted]'')"
proof -
  have f: "fromtimestamp 253402300800 = None" by (simp add: fromtimestamp_def)
  have o: "object_id (Listed ex_post) \<noteq> None"
    "object_id (Listed (ex_post\<lparr>s_created_utc := None\<rparr>)) \<noteq> None" by simp_all
  have i: "c_id ex_reply \<noteq> AttrRaises" "c_id (ex_reply\<lparr>c_id := NoAttr\<rparr>) \<noteq> AttrRaises"
    "c_id (ex_reply\<lparr>c_created_utc := None\<rparr>) \<noteq> AttrRaises"
    "c_created_utc (ex_reply\<lparr>c_created_utc := None\<rparr>) = None"
    by (simp_all add: ex_reply_def)
  obtain d where d: "extract_submission_data (Listed (ex_post\<lparr>s_author := AuthorRaises\<rparr>)) = Inr (Some d)"
    using ex_author_raises
      extract_submission_total [of "ex_post\<lparr>s_author := AuthorRaises\<rparr>"]
    by (cases "extract_submission_data (Listed (ex_post\<lparr>s_author := AuthorRaises\<rparr>))") auto
  from extractors_total [where s = "ex_post\<lparr>s_author := AuthorRaises\<rparr>" and d = d] d
  have 1: "cell d ''username'' = VStr ''[deleted]''" by simp
  note t = extractors_total [where obj = "Listed ex_post" and c = ex_reply and p = ex_post
      and s = ex_post]
  note t1 = t [THEN conjunct1, THEN mp, OF o(1)]
  note t2 = t [THEN conjunct2, THEN conjunct1, THEN mp, OF i(1)]
  note t7 = t [THEN conjunct2, THEN conjunct2, THEN conjunct2, THEN conjunct2, THEN conjunct2,
      THEN conjunct2, THEN conjunct1]
  note u = extractors_total [where obj = "Listed (ex_post\<lparr>s_created_utc := None\<rparr>)"
      and c = "ex_reply\<lparr>c_id := NoAttr\<rparr>" and p = ex_post]
  note u3 = u [THEN conjunct2, THEN conjunct2, THEN conjunct1, THEN mp,
      OF conjI [OF o(2) ex_try(1)]]
  note u4 = u [THEN conjunct2, THEN conjunct2, THEN conjunct2, THEN conjunct1, THEN mp,
      OF conjI [OF i(2) ex_try(2)]]
  from extractors_total [where s = "ex_post\<lparr>s_created_utc := Some 253402300800\<rparr>"] f
  have 3: "extract_submission_data (Listed (ex_post\<lparr>s_created_utc := Some 253402300800\<rparr>)) = Inr None"
    by simp
  from extractors_total [where c = "ex_reply\<lparr>c_created_utc := None\<rparr>" and p = ex_post] i(3,4)
  have 4: "extract_comment_data (ex_reply\<lparr>c_created_utc := None\<rparr>) ex_post = Inr None"
    by simp
  from d 1 have 5: "\<exists>d. extract_submission_data (Listed (ex_post\<lparr>s_author := AuthorRaises\<rparr>)) = Inr (Some d)
        \<and> cell d ''username'' = VStr ''[deleted]''"
    by (intro exI [of _ d]) simp
  from o(1) t1 i(1) t2 ex_try(1) u3 f 3 i(2) ex_try(2) u4 4 t7 5
  show ?thesis by (intro conjI)
qed

end
